theory Spec2Isabelle
  imports Complex_Main "HOL-Library.Product_Lexorder"
begin

section \<open>Data model\<close>

text \<open>
  Dates are day numbers (Python's \<open>date.toordinal()\<close>): comparison is comparison of
  day numbers and \<open>(a - b).days\<close> is integer subtraction.  Quantities are computed by the
  source in Python and SQL floats; they are modelled by real numbers.
\<close>

type_synonym date = int

text \<open>\<open>models.SP_InventoryLedger\<close>: one row per stock movement.\<close>

record SP_InventoryLedger =
  LedgerID :: int
  CustomerID :: int
  SKU_ID :: int
  DocDate :: date
  MovementType :: string
  MovementSubType :: "string option"
  Qty :: real
  UploadID :: "int option"
  RefTable :: "string option"
  RefID :: "string option"
  IdempotencyKey :: "string option"

text \<open>\<open>models.SP_SOH_Uploads\<close> (header) and \<open>models.SP_SOH_Detail\<close> (lines) of the
  stock-on-hand snapshots; only the columns the balance queries read.\<close>

record SP_SOH_Uploads =
  sohu_SOHUploadID :: int
  sohu_CustomerID :: int
  sohu_Brand :: "string option"

record SP_SOH_Detail =
  sohd_SOHUploadID :: int
  sohd_SKU_ID :: int
  sohd_RowNumber :: int
  sohd_SOHDate :: date
  sohd_SOHQty :: real
  sohd_IsActive :: bool

section \<open>Query helpers\<close>

text \<open>SQL \<open>MAX(col)\<close> over the selected rows: \<open>NULL\<close> when no row is selected.\<close>

fun sql_max :: "int list \<Rightarrow> int option" where
  "sql_max [] = None"
| "sql_max (x # xs) = (case sql_max xs of None \<Rightarrow> Some x | Some m \<Rightarrow> Some (max x m))"

text \<open>SQL \<open>MIN(col)\<close> over the selected rows.\<close>

fun sql_min :: "int list \<Rightarrow> int option" where
  "sql_min [] = None"
| "sql_min (x # xs) = (case sql_min xs of None \<Rightarrow> Some x | Some m \<Rightarrow> Some (min x m))"

text \<open>\<open>ORDER BY key DESC\<close> followed by \<open>.first()\<close>: a row of greatest key, \<open>None\<close>
  when the selection is empty.\<close>

fun first_desc :: "('a \<Rightarrow> 'k::linorder) \<Rightarrow> 'a list \<Rightarrow> 'a option" where
  "first_desc k [] = None"
| "first_desc k (x # xs) =
     (case first_desc k xs of
        None \<Rightarrow> Some x
      | Some y \<Rightarrow> if k x < k y then Some y else Some x)"

text \<open>The inner join of snapshot lines with their headers on \<open>SOHUploadID\<close>.\<close>

definition soh_join :: "SP_SOH_Uploads list \<Rightarrow> SP_SOH_Detail list \<Rightarrow> (SP_SOH_Detail \<times> SP_SOH_Uploads) list" where
  "soh_join SU SD =
     concat (map (\<lambda>d. map (\<lambda>u. (d, u)) (filter (\<lambda>u. sohu_SOHUploadID u = sohd_SOHUploadID d) SU)) SD)"

section \<open>Anchor resolver (\<open>sales_pulse_general\<close>)\<close>

definition anchor_adjust_date_customer :: "SP_InventoryLedger list \<Rightarrow> int \<Rightarrow> date \<Rightarrow> date option" where
  "anchor_adjust_date_customer L customer_id as_of =
     sql_max (map DocDate (filter (\<lambda>e. CustomerID e = customer_id
                                       \<and> MovementType e = ''ADJUST''
                                       \<and> DocDate e \<le> as_of) L))"

definition anchor_adjust_date_sku_only :: "SP_InventoryLedger list \<Rightarrow> int \<Rightarrow> int \<Rightarrow> date \<Rightarrow> date option" where
  "anchor_adjust_date_sku_only L customer_id sku_id as_of =
     sql_max (map DocDate (filter (\<lambda>e. CustomerID e = customer_id
                                       \<and> SKU_ID e = sku_id
                                       \<and> MovementType e = ''ADJUST''
                                       \<and> DocDate e \<le> as_of) L))"

text \<open>\<open>if ca and sa: return max(ca, sa)\<close>, then \<open>return sa or ca\<close>; a date is always
  truthy, so the tests are tests for \<open>None\<close>.\<close>

definition effective_anchor_for_sku :: "SP_InventoryLedger list \<Rightarrow> int \<Rightarrow> int \<Rightarrow> date \<Rightarrow> date option" where
  "effective_anchor_for_sku L customer_id sku_id as_of =
     (let ca = anchor_adjust_date_customer L customer_id as_of;
          sa = anchor_adjust_date_sku_only L customer_id sku_id as_of
      in if ca \<noteq> None \<and> sa \<noteq> None then Some (max (the ca) (the sa))
         else (if sa \<noteq> None then sa else ca))"

section \<open>Balance engine (\<open>sales_pulse_general\<close>)\<close>

definition signed_qty_expr :: "SP_InventoryLedger \<Rightarrow> real" where
  "signed_qty_expr e =
     (if MovementType e = ''SELLOUT'' then - \<bar>Qty e\<bar>
      else if MovementType e = ''SELLIN'' then Qty e
      else if MovementType e = ''ADJUST'' then Qty e
      else Qty e)"

definition latest_active_snapshot ::
  "SP_SOH_Uploads list \<Rightarrow> SP_SOH_Detail list \<Rightarrow> int \<Rightarrow> string option \<Rightarrow> int \<Rightarrow> date \<Rightarrow> date option \<times> real" where
  "latest_active_snapshot SU SD customer_id brand sku_id as_of =
     (let q = filter (\<lambda>(d, u). sohu_CustomerID u = customer_id
                               \<and> sohd_SKU_ID d = sku_id
                               \<and> sohd_IsActive d
                               \<and> sohd_SOHDate d \<le> as_of) (soh_join SU SD);
          q = (if brand \<noteq> None \<and> brand \<noteq> Some [] then filter (\<lambda>(d, u). sohu_Brand u = brand) q else q)
      in case first_desc (\<lambda>(d, u). (sohd_SOHDate d, sohu_SOHUploadID u)) q of
           Some (d, u) \<Rightarrow> (Some (sohd_SOHDate d), sohd_SOHQty d)
         | None \<Rightarrow> (None, 0))"

definition snapshot_qty_on_date ::
  "SP_SOH_Uploads list \<Rightarrow> SP_SOH_Detail list \<Rightarrow> int \<Rightarrow> int \<Rightarrow> date \<Rightarrow> real \<times> bool" where
  "snapshot_qty_on_date SU SD customer_id sku_id snap_date =
     (let q = filter (\<lambda>(d, u). sohu_CustomerID u = customer_id
                               \<and> sohd_SKU_ID d = sku_id
                               \<and> sohd_IsActive d
                               \<and> sohd_SOHDate d = snap_date) (soh_join SU SD)
      in case first_desc (\<lambda>(d, u). sohu_SOHUploadID u) q of
           Some (d, u) \<Rightarrow> (sohd_SOHQty d, True)
         | None \<Rightarrow> (0, False))"

definition sum_signed_after_date :: "SP_InventoryLedger list \<Rightarrow> int \<Rightarrow> int \<Rightarrow> date \<Rightarrow> date \<Rightarrow> real" where
  "sum_signed_after_date L customer_id sku_id day until_incl =
     sum_list (map signed_qty_expr
       (filter (\<lambda>e. CustomerID e = customer_id \<and> SKU_ID e = sku_id
                    \<and> DocDate e > day \<and> DocDate e \<le> until_incl) L))"

definition sum_signed_on_date_excl_adjust :: "SP_InventoryLedger list \<Rightarrow> int \<Rightarrow> int \<Rightarrow> date \<Rightarrow> real" where
  "sum_signed_on_date_excl_adjust L customer_id sku_id day =
     sum_list (map signed_qty_expr
       (filter (\<lambda>e. CustomerID e = customer_id \<and> SKU_ID e = sku_id
                    \<and> DocDate e = day \<and> MovementType e \<noteq> ''ADJUST'') L))"

definition sum_signed_inclusive :: "SP_InventoryLedger list \<Rightarrow> int \<Rightarrow> int \<Rightarrow> date \<Rightarrow> date \<Rightarrow> real" where
  "sum_signed_inclusive L customer_id sku_id start_incl end_incl =
     sum_list (map signed_qty_expr
       (filter (\<lambda>e. CustomerID e = customer_id \<and> SKU_ID e = sku_id
                    \<and> DocDate e \<ge> start_incl \<and> DocDate e \<le> end_incl) L))"

definition closing_soh_anchored ::
  "SP_InventoryLedger list \<Rightarrow> SP_SOH_Uploads list \<Rightarrow> SP_SOH_Detail list \<Rightarrow> int \<Rightarrow> int \<Rightarrow> date \<Rightarrow> real" where
  "closing_soh_anchored L SU SD customer_id sku_id as_of =
     (case effective_anchor_for_sku L customer_id sku_id as_of of
        Some anchor \<Rightarrow>
          (case snapshot_qty_on_date SU SD customer_id sku_id anchor of
             (base_qty, had_snap) \<Rightarrow>
               if had_snap then
                 (let same_day_non_adjust = sum_signed_on_date_excl_adjust L customer_id sku_id anchor;
                      after_anchor = sum_signed_after_date L customer_id sku_id anchor as_of
                  in base_qty + same_day_non_adjust + after_anchor)
               else sum_signed_inclusive L customer_id sku_id anchor as_of)
      | None \<Rightarrow>
          (case latest_active_snapshot SU SD customer_id None sku_id as_of of
             (snap_date, snap_qty) \<Rightarrow>
               (case snap_date of
                  Some sd \<Rightarrow>
                    (let delta = sum_list (map signed_qty_expr
                                   (filter (\<lambda>e. CustomerID e = customer_id \<and> SKU_ID e = sku_id
                                                \<and> DocDate e > sd \<and> DocDate e \<le> as_of) L))
                     in snap_qty + delta)
                | None \<Rightarrow> 0)))"

section \<open>Balance used by the sell-out approval preview (\<open>sell_out_approvals\<close>)\<close>

text \<open>\<open>if since_excl:\<close> adds the lower bound only when a snapshot date was found.\<close>

definition sum_ledger_between :: "SP_InventoryLedger list \<Rightarrow> int \<Rightarrow> int \<Rightarrow> date option \<Rightarrow> date \<Rightarrow> real" where
  "sum_ledger_between L customer_id sku_id since_excl until_incl =
     (let q = filter (\<lambda>e. CustomerID e = customer_id \<and> SKU_ID e = sku_id
                          \<and> DocDate e \<le> until_incl) L;
          q = (case since_excl of Some s \<Rightarrow> filter (\<lambda>e. DocDate e > s) q | None \<Rightarrow> q)
      in sum_list (map Qty q))"

definition balance_as_of ::
  "SP_InventoryLedger list \<Rightarrow> SP_SOH_Uploads list \<Rightarrow> SP_SOH_Detail list \<Rightarrow> int \<Rightarrow> string option \<Rightarrow> int \<Rightarrow> date \<Rightarrow> real" where
  "balance_as_of L SU SD customer_id brand sku_id as_of =
     (case latest_active_snapshot SU SD customer_id brand sku_id as_of of
        (snap_date, snap_qty) \<Rightarrow>
          (let delta = sum_ledger_between L customer_id sku_id snap_date as_of
           in snap_qty + delta))"

section \<open>FIFO aging engine (\<open>fifo_aging_sqlalchemy.build_fifo_ctes\<close>)\<close>

text \<open>Python truthiness of an optional integer filter (\<open>if customer_id:\<close>): \<open>None\<close>
  and \<open>0\<close> switch the filter off.\<close>

definition truthy :: "int option \<Rightarrow> bool" where
  "truthy x = (x \<noteq> None \<and> x \<noteq> Some 0)"

definition matches :: "int option \<Rightarrow> int \<Rightarrow> bool" where
  "matches flt v = (if truthy flt then Some v = flt else True)"

text \<open>CTE \<open>AdjustDates\<close>: per customer, the earliest ADJUST date on or before the
  reporting date (\<open>GROUP BY CustomerID\<close>, \<open>MIN(DocDate)\<close>).\<close>

definition AdjustDates :: "SP_InventoryLedger list \<Rightarrow> date \<Rightarrow> int option \<Rightarrow> (int \<times> date) list" where
  "AdjustDates L as_of_date customer_id =
     (let rows = filter (\<lambda>e. MovementType e = ''ADJUST'' \<and> DocDate e \<le> as_of_date
                              \<and> matches customer_id (CustomerID e)) L
      in concat (map (\<lambda>c. case sql_min (map DocDate (filter (\<lambda>e. CustomerID e = c) rows)) of
                              Some adjust_date \<Rightarrow> [(c, adjust_date)]
                            | None \<Rightarrow> [])
                     (remdups (map CustomerID rows))))"

text \<open>CTE \<open>Movements\<close>: the ledger joined with \<open>AdjustDates\<close> on the customer, cut to
  the window from the adjust date to the reporting date, both inclusive.\<close>

definition Movements :: "SP_InventoryLedger list \<Rightarrow> date \<Rightarrow> int option \<Rightarrow> int option \<Rightarrow> SP_InventoryLedger list" where
  "Movements L as_of_date customer_id sku_id =
     concat (map (\<lambda>e. map (\<lambda>a. e)
                    (filter (\<lambda>(c, adjust_date). CustomerID e = c
                                \<and> DocDate e \<le> as_of_date
                                \<and> DocDate e \<ge> adjust_date
                                \<and> matches sku_id (SKU_ID e)
                                \<and> matches customer_id (CustomerID e))
                            (AdjustDates L as_of_date customer_id))) L)"

text \<open>CTE \<open>Totals\<close>: one row per (customer, SKU) of the window.\<close>

record Totals_row =
  t_CustomerID :: int
  t_SKU_ID :: int
  total_issues :: real
  total_receipts :: real
  last_movement_date :: "date option"
  last_sellout_date :: "date option"

definition Totals :: "SP_InventoryLedger list \<Rightarrow> Totals_row list" where
  "Totals M =
     map (\<lambda>(c, s). let g = filter (\<lambda>m. CustomerID m = c \<and> SKU_ID m = s) M in
            \<lparr>t_CustomerID = c, t_SKU_ID = s,
             total_issues = (\<Sum>m \<leftarrow> g. if Qty m < 0 then - Qty m else 0),
             total_receipts = (\<Sum>m \<leftarrow> g. if Qty m > 0 then Qty m else 0),
             last_movement_date = sql_max (map DocDate g),
             last_sellout_date = sql_max (map DocDate (filter (\<lambda>m. Qty m < 0) g))\<rparr>)
         (remdups (map (\<lambda>m. (CustomerID m, SKU_ID m)) M))"

text \<open>CTE \<open>Receipts\<close>: the rows with positive quantity; the window sums run over each
  (customer, SKU) partition in the order (DocDate, LedgerID).  \<open>cum_in_prev\<close> has the
  frame \<open>rows=(None, -1)\<close>, all rows strictly before the current one, and is \<open>NULL\<close> on
  the first row of a partition.\<close>

record Receipts_row =
  r_CustomerID :: int
  r_SKU_ID :: int
  r_lot_date :: date
  r_LedgerID :: int
  r_lot_qty :: real
  r_cum_in_including :: real
  r_cum_in_prev :: "real option"

definition coalesce :: "real option \<Rightarrow> real \<Rightarrow> real" where
  "coalesce x d = (case x of Some v \<Rightarrow> v | None \<Rightarrow> d)"

fun window_sums :: "real option \<Rightarrow> SP_InventoryLedger list \<Rightarrow> Receipts_row list" where
  "window_sums prev [] = []"
| "window_sums prev (m # ms) =
     \<lparr>r_CustomerID = CustomerID m, r_SKU_ID = SKU_ID m, r_lot_date = DocDate m,
      r_LedgerID = LedgerID m, r_lot_qty = Qty m,
      r_cum_in_including = coalesce prev 0 + Qty m,
      r_cum_in_prev = prev\<rparr>
     # window_sums (Some (coalesce prev 0 + Qty m)) ms"

definition Receipts :: "SP_InventoryLedger list \<Rightarrow> Receipts_row list" where
  "Receipts M =
     (let rows = filter (\<lambda>m. Qty m > 0) M
      in concat (map (\<lambda>(c, s). window_sums None
                        (sort_key (\<lambda>m. (DocDate m, LedgerID m))
                           (filter (\<lambda>m. CustomerID m = c \<and> SKU_ID m = s) rows)))
                     (remdups (map (\<lambda>m. (CustomerID m, SKU_ID m)) rows))))"

text \<open>The \<open>CASE\<close> of \<open>consumed_expr\<close>.  \<open>Totals.total_issues\<close> comes through a left outer
  join and is \<open>NULL\<close> when no \<open>Totals\<close> row matches: a comparison with \<open>NULL\<close> is not
  true, so both \<open>WHEN\<close>s fail and the \<open>ELSE\<close> branch yields \<open>NULL\<close>.\<close>

definition consumed_expr :: "real option \<Rightarrow> real option \<Rightarrow> real \<Rightarrow> real option" where
  "consumed_expr tot_issues cum_prev lot_qty =
     (case tot_issues of
        None \<Rightarrow> None
      | Some ti \<Rightarrow>
          if ti \<le> coalesce cum_prev 0 then Some 0
          else if ti \<ge> coalesce cum_prev 0 + lot_qty then Some lot_qty
          else Some (ti - coalesce cum_prev 0))"

record Allocated_row =
  a_CustomerID :: int
  a_SKU_ID :: int
  a_lot_date :: date
  a_LedgerID :: int
  a_lot_qty :: real
  a_cum_in_prev :: real
  a_total_issues :: real
  consumed_qty :: "real option"
  remaining_qty :: "real option"

definition Allocated_of :: "Receipts_row \<Rightarrow> real option \<Rightarrow> Allocated_row" where
  "Allocated_of r tot_issues =
     \<lparr>a_CustomerID = r_CustomerID r, a_SKU_ID = r_SKU_ID r, a_lot_date = r_lot_date r,
      a_LedgerID = r_LedgerID r, a_lot_qty = r_lot_qty r,
      a_cum_in_prev = coalesce (r_cum_in_prev r) 0,
      a_total_issues = coalesce tot_issues 0,
      consumed_qty = consumed_expr tot_issues (r_cum_in_prev r) (r_lot_qty r),
      remaining_qty = map_option (\<lambda>x. r_lot_qty r - x)
                        (consumed_expr tot_issues (r_cum_in_prev r) (r_lot_qty r))\<rparr>"

text \<open>CTE \<open>Allocated\<close>: \<open>Receipts\<close> left outer join \<open>Totals\<close> on (customer, SKU).\<close>

definition Allocated :: "SP_InventoryLedger list \<Rightarrow> Allocated_row list" where
  "Allocated M =
     concat (map (\<lambda>r. case filter (\<lambda>t. t_CustomerID t = r_CustomerID r \<and> t_SKU_ID t = r_SKU_ID r)
                                (Totals M) of
                         [] \<Rightarrow> [Allocated_of r None]
                       | ts \<Rightarrow> map (\<lambda>t. Allocated_of r (Some (total_issues t))) ts)
                 (Receipts M))"

text \<open>CTE \<open>LiveLayers\<close>: the lots with \<open>remaining_qty > 0\<close> (a \<open>NULL\<close> is not greater
  than 0), aged by \<open>DATEDIFF(day, lot_date, as_of_date)\<close>.\<close>

record LiveLayers_row =
  ll_CustomerID :: int
  ll_SKU_ID :: int
  ll_lot_date :: date
  ll_remaining_qty :: real
  ll_age_days :: int

definition LiveLayers :: "SP_InventoryLedger list \<Rightarrow> date \<Rightarrow> LiveLayers_row list" where
  "LiveLayers M as_of_date =
     concat (map (\<lambda>a. case remaining_qty a of
                         Some rem \<Rightarrow>
                           if rem > 0 then
                             [\<lparr>ll_CustomerID = a_CustomerID a, ll_SKU_ID = a_SKU_ID a,
                               ll_lot_date = a_lot_date a, ll_remaining_qty = rem,
                               ll_age_days = as_of_date - a_lot_date a\<rparr>]
                           else []
                       | None \<Rightarrow> [])
                 (Allocated M))"

definition LiveLayersFiltered ::
  "SP_InventoryLedger list \<Rightarrow> date \<Rightarrow> int option \<Rightarrow> int option \<Rightarrow> LiveLayers_row list" where
  "LiveLayersFiltered M as_of_date min_age max_age =
     filter (\<lambda>l. (case min_age of Some a \<Rightarrow> ll_age_days l \<ge> a | None \<Rightarrow> True)
               \<and> (case max_age of Some a \<Rightarrow> ll_age_days l \<le> a | None \<Rightarrow> True))
            (LiveLayers M as_of_date)"

text \<open>CTE \<open>Buckets\<close>: the filtered live layers grouped by (customer, SKU).\<close>

record Buckets_row =
  b_CustomerID :: int
  b_SKU_ID :: int
  b_0_30 :: real
  b_31_60 :: real
  b_61_90 :: real
  b_90p :: real
  soh_qty :: real
  weighted_age_sum :: real
  oldest_lot_date :: "date option"
  newest_lot_date :: "date option"

definition Buckets ::
  "SP_InventoryLedger list \<Rightarrow> date \<Rightarrow> int option \<Rightarrow> int option \<Rightarrow> Buckets_row list" where
  "Buckets M as_of_date min_age max_age =
     (let F = LiveLayersFiltered M as_of_date min_age max_age in
      map (\<lambda>(c, s). let g = filter (\<lambda>l. ll_CustomerID l = c \<and> ll_SKU_ID l = s) F in
             \<lparr>b_CustomerID = c, b_SKU_ID = s,
              b_0_30 = (\<Sum>l \<leftarrow> g. if 0 \<le> ll_age_days l \<and> ll_age_days l \<le> 30 then ll_remaining_qty l else 0),
              b_31_60 = (\<Sum>l \<leftarrow> g. if 31 \<le> ll_age_days l \<and> ll_age_days l \<le> 60 then ll_remaining_qty l else 0),
              b_61_90 = (\<Sum>l \<leftarrow> g. if 61 \<le> ll_age_days l \<and> ll_age_days l \<le> 90 then ll_remaining_qty l else 0),
              b_90p = (\<Sum>l \<leftarrow> g. if ll_age_days l > 90 then ll_remaining_qty l else 0),
              soh_qty = (\<Sum>l \<leftarrow> g. ll_remaining_qty l),
              weighted_age_sum = (\<Sum>l \<leftarrow> g. ll_remaining_qty l * real_of_int (ll_age_days l)),
              oldest_lot_date = sql_min (map ll_lot_date g),
              newest_lot_date = sql_max (map ll_lot_date g)\<rparr>)
          (remdups (map (\<lambda>l. (ll_CustomerID l, ll_SKU_ID l)) F)))"

text \<open>The two statements \<open>build_fifo_ctes\<close> returns.  The joins with the customer and
  SKU master tables and the brand, article and sales-office predicates only remove
  rows; they are the parameter \<open>visible\<close>, a predicate on (customer, SKU).  The price
  columns and the final \<open>ORDER BY\<close> over master data are left out.\<close>

definition bucket_stmt ::
  "(int \<Rightarrow> int \<Rightarrow> bool) \<Rightarrow> SP_InventoryLedger list \<Rightarrow> date \<Rightarrow> int option \<Rightarrow> int option
     \<Rightarrow> int option \<Rightarrow> int option \<Rightarrow> bool \<Rightarrow> Buckets_row list" where
  "bucket_stmt visible L as_of_date customer_id sku_id min_age max_age only_positive_soh =
     filter (\<lambda>b. visible (b_CustomerID b) (b_SKU_ID b)
               \<and> matches customer_id (b_CustomerID b)
               \<and> matches sku_id (b_SKU_ID b)
               \<and> (only_positive_soh \<longrightarrow> soh_qty b > 0))
            (Buckets (Movements L as_of_date customer_id sku_id) as_of_date min_age max_age)"

definition layer_stmt ::
  "(int \<Rightarrow> int \<Rightarrow> bool) \<Rightarrow> SP_InventoryLedger list \<Rightarrow> date \<Rightarrow> int option \<Rightarrow> int option
     \<Rightarrow> LiveLayers_row list" where
  "layer_stmt visible L as_of_date customer_id sku_id =
     filter (\<lambda>l. visible (ll_CustomerID l) (ll_SKU_ID l)
               \<and> matches customer_id (ll_CustomerID l)
               \<and> matches sku_id (ll_SKU_ID l))
            (LiveLayers (Movements L as_of_date customer_id sku_id) as_of_date)"

section \<open>Example data\<close>

text \<open>A ledger row with the provenance columns empty.\<close>

definition mk_movement :: "int \<Rightarrow> int \<Rightarrow> int \<Rightarrow> date \<Rightarrow> string \<Rightarrow> real \<Rightarrow> SP_InventoryLedger" where
  "mk_movement lid c s d mt q =
     \<lparr>LedgerID = lid, CustomerID = c, SKU_ID = s, DocDate = d, MovementType = mt,
      MovementSubType = None, Qty = q, UploadID = None, RefTable = None, RefID = None,
      IdempotencyKey = None\<rparr>"

definition scenario_ledger :: "SP_InventoryLedger list" where
  "scenario_ledger =
     [mk_movement 1 7 1 1 ''ADJUST'' 100,
      mk_movement 2 7 1 5 ''SELLIN'' 50,
      mk_movement 3 7 1 10 ''SELLOUT'' (- 30)]"

definition scenario_soh_uploads :: "SP_SOH_Uploads list" where
  "scenario_soh_uploads = [\<lparr>sohu_SOHUploadID = 1, sohu_CustomerID = 7, sohu_Brand = None\<rparr>]"

definition scenario_soh_detail :: "SP_SOH_Detail list" where
  "scenario_soh_detail =
     [\<lparr>sohd_SOHUploadID = 1, sohd_SKU_ID = 1, sohd_RowNumber = 1, sohd_SOHDate = 1,
       sohd_SOHQty = 100, sohd_IsActive = True\<rparr>]"

text \<open>A pair with one receipt and neither an ADJUST row nor a snapshot.\<close>

definition unanchored_ledger :: "SP_InventoryLedger list" where
  "unanchored_ledger = [mk_movement 1 7 1 5 ''SELLIN'' 5]"

text \<open>The FIFO scenario: lots of 40 (day 1) and 60 (day 10) and issues of 70 for SKU 1 of
  customer 7; a receipt for SKU 2, which has no ADJUST row of its own; and a receipt of
  customer 8, who has no ADJUST row at all.\<close>

definition fifo_ledger :: "SP_InventoryLedger list" where
  "fifo_ledger =
     [mk_movement 1 7 1 1 ''ADJUST'' 40,
      mk_movement 2 7 1 10 ''SELLIN'' 60,
      mk_movement 3 7 1 12 ''SELLOUT'' (- 70),
      mk_movement 4 7 2 11 ''SELLIN'' 5,
      mk_movement 5 8 1 11 ''SELLIN'' 9]"

section \<open>Sell-out uploads (\<open>sell_out_approvals\<close>)\<close>

text \<open>\<open>models.SP_SellOutUploads\<close> (header) and \<open>models.SP_MCSI_SellOut\<close> (lines), with
  the columns the approval code reads or writes.\<close>

record SP_SellOutUploads =
  up_UploadID :: int
  up_CustomerID :: int
  up_Brand :: "string option"
  up_Status :: string
  up_ApprovedBy :: "string option"

record SP_MCSI_SellOut =
  so_UploadID :: int
  so_SKU_ID :: int
  so_RowNumber :: int
  so_DocumentDate :: date
  so_SellOutQty :: real
  so_IsActive :: bool

text \<open>The query both \<open>_preview_negatives\<close> and \<open>_post_sellout_running\<close> start with: the
  active lines of the upload, ordered by (SKU_ID, DocumentDate, RowNumber).\<close>

definition active_details :: "SP_MCSI_SellOut list \<Rightarrow> SP_SellOutUploads \<Rightarrow> SP_MCSI_SellOut list" where
  "active_details SO upload =
     sort_key (\<lambda>d. (so_SKU_ID d, so_DocumentDate d, so_RowNumber d))
       (filter (\<lambda>d. so_UploadID d = up_UploadID upload \<and> so_IsActive d) SO)"

subsection \<open>Negative-balance preview (\<open>_preview_negatives\<close>)\<close>











definition preview_upload :: SP_SellOutUploads where
  "preview_upload =
     \<lparr>up_UploadID = 1, up_CustomerID = 7, up_Brand = None, up_Status = ''Draft'',
      up_ApprovedBy = None\<rparr>"

definition preview_details :: "SP_MCSI_SellOut list" where
  "preview_details =
     [\<lparr>so_UploadID = 1, so_SKU_ID = 1, so_RowNumber = 1, so_DocumentDate = 5,
       so_SellOutQty = 4, so_IsActive = True\<rparr>,
      \<lparr>so_UploadID = 1, so_SKU_ID = 1, so_RowNumber = 2, so_DocumentDate = 5,
       so_SellOutQty = 8, so_IsActive = True\<rparr>]"



subsection \<open>Posting (\<open>_post_sellout_running\<close>, \<open>approve_uploads\<close>)\<close>

text \<open>Python's \<open>str\<close> of an integer, as the f-strings of the idempotency keys use it.\<close>

fun digits :: "nat \<Rightarrow> string" where
  "digits n = (if n < 10 then [char_of (48 + n)] else digits (n div 10) @ [char_of (48 + n mod 10)])"

declare digits.simps [simp del]

definition str_int :: "int \<Rightarrow> string" where
  "str_int i = (if i < 0 then CHR ''-'' # digits (nat (- i)) else digits (nat i))"

text \<open>\<open>models.SP_SellOutApproval\<close>, the audit trail, and the tables an approval request
  reads and writes.  Timestamps are left out.\<close>

record SP_SellOutApproval =
  ap_UploadID :: int
  ap_Action :: string
  ap_Actor :: string
  ap_Comment :: "string option"

record sellout_db =
  db_uploads :: "SP_SellOutUploads list"
  db_details :: "SP_MCSI_SellOut list"
  db_ledger :: "SP_InventoryLedger list"
  db_approvals :: "SP_SellOutApproval list"

text \<open>The exceptions of a posting: the two \<open>ValueError\<close>s of \<open>_post_sellout_running\<close>,
  the 404 of \<open>_get_upload_or_404\<close>, and the violation of the unique index
  \<open>UX_InvLedger_Idempotent\<close> at commit.\<close>

datatype post_error = AlreadyPosted int | NoActiveRows | NotFound | IntegrityError

text \<open>\<open>LedgerID\<close> is an autoincrement primary key.\<close>

definition next_ledger_id :: "SP_InventoryLedger list \<Rightarrow> int" where
  "next_ledger_id L = (case sql_max (map LedgerID L) of None \<Rightarrow> 1 | Some m \<Rightarrow> m + 1)"

fun add_rows :: "SP_InventoryLedger list \<Rightarrow> SP_InventoryLedger list \<Rightarrow> SP_InventoryLedger list" where
  "add_rows L [] = L"
| "add_rows L (e # es) = add_rows (L @ [e\<lparr>LedgerID := next_ledger_id L\<rparr>]) es"

text \<open>The SELLOUT row written for one detail line (\<open>LedgerID\<close> is assigned on insert).\<close>

definition sellout_ledger_row :: "SP_SellOutUploads \<Rightarrow> SP_MCSI_SellOut \<Rightarrow> SP_InventoryLedger" where
  "sellout_ledger_row upload d =
     \<lparr>LedgerID = 0,
      CustomerID = up_CustomerID upload,
      SKU_ID = so_SKU_ID d,
      DocDate = so_DocumentDate d,
      MovementType = ''SELLOUT'',
      MovementSubType = None,
      Qty = - so_SellOutQty d,
      UploadID = Some (up_UploadID upload),
      RefTable = Some ''SP_SellOutUploads'',
      RefID = Some (str_int (up_UploadID upload)),
      IdempotencyKey = Some (''SO_APPROVE:'' @ str_int (up_UploadID upload) @ '':''
                               @ str_int (so_RowNumber d))\<rparr>"

text \<open>\<open>actor or "approver"\<close>.\<close>

definition actor_or :: "string \<Rightarrow> string \<Rightarrow> string" where
  "actor_or actor dflt = (if actor = [] then dflt else actor)"

text \<open>\<open>_post_sellout_running\<close>: \<open>upload\<close> is the header object as the caller loaded it;
  the result is the pending state of the session, or the exception raised.  Setting
  \<open>upload.Status\<close> and \<open>upload.ApprovedBy\<close> becomes an \<open>UPDATE\<close> of the header row by its
  primary key.\<close>

definition post_sellout_running ::
  "sellout_db \<Rightarrow> SP_SellOutUploads \<Rightarrow> string \<Rightarrow> string option \<Rightarrow> post_error + sellout_db" where
  "post_sellout_running db upload actor comment =
     (if up_Status upload = ''Posted'' then Inl (AlreadyPosted (up_UploadID upload))
      else
        (let details = active_details (db_details db) upload in
         if details = [] then Inl NoActiveRows
         else Inr (db\<lparr>db_ledger := add_rows (db_ledger db) (map (sellout_ledger_row upload) details),
                       db_uploads := map (\<lambda>u. if up_UploadID u = up_UploadID upload
                                               then u\<lparr>up_Status := ''Posted'',
                                                      up_ApprovedBy := Some (actor_or actor ''approver'')\<rparr>
                                               else u) (db_uploads db),
                       db_approvals := db_approvals db @
                         [\<lparr>ap_UploadID = up_UploadID upload, ap_Action = ''APPROVE'',
                           ap_Actor = actor_or actor ''approver'', ap_Comment = comment\<rparr>]\<rparr>)))"

text \<open>The unique index \<open>UX_InvLedger_Idempotent\<close> of the ledger.\<close>

definition ledger_key ::
  "SP_InventoryLedger \<Rightarrow> int \<times> int \<times> date \<times> string \<times> string option \<times> int option" where
  "ledger_key e = (CustomerID e, SKU_ID e, DocDate e, MovementType e, IdempotencyKey e, UploadID e)"

definition ledger_unique :: "SP_InventoryLedger list \<Rightarrow> bool" where
  "ledger_unique L = distinct (map ledger_key L)"

text \<open>One iteration of the loop of \<open>approve_uploads\<close>, a transaction (\<open>with _tx()\<close>):
  the claim \<open>UPDATE ... SET Status = 'Posting' WHERE UploadID = :id AND Status = 'Draft'\<close>
  returns the number of rows it changed; \<open>continue\<close> leaves the transaction block
  normally, so what the claim changed is committed; an exception rolls everything back.
  The header \<open>u\<close> was loaded before the claim and is not refreshed
  (\<open>synchronize_session=False\<close>).\<close>

datatype approve_result = Posted | Skipped string | Failed post_error

definition approve_one ::
  "sellout_db \<Rightarrow> int \<Rightarrow> string \<Rightarrow> string option \<Rightarrow> approve_result \<times> sellout_db" where
  "approve_one db upload_id actor comment =
     (case find (\<lambda>u. up_UploadID u = upload_id) (db_uploads db) of
        None \<Rightarrow> (Failed NotFound, db)
      | Some u \<Rightarrow>
          (let affected = length (filter (\<lambda>x. up_UploadID x = up_UploadID u \<and> up_Status x = ''Draft'')
                                    (db_uploads db));
               db1 = db\<lparr>db_uploads := map (\<lambda>x. if up_UploadID x = up_UploadID u \<and> up_Status x = ''Draft''
                                              then x\<lparr>up_Status := ''Posting''\<rparr> else x)
                                         (db_uploads db)\<rparr>
           in if affected \<noteq> 1 then (Skipped (up_Status u), db1)
              else (case post_sellout_running db1 u actor comment of
                      Inl e \<Rightarrow> (Failed e, db)
                    | Inr db2 \<Rightarrow>
                        if ledger_unique (db_ledger db2) then (Posted, db2)
                        else (Failed IntegrityError, db))))"

text \<open>\<open>approve_uploads\<close>: the loop over the requested ids, collecting \<open>posted\<close>,
  \<open>skipped\<close> and \<open>failed\<close>.\<close>

fun approve_uploads ::
  "sellout_db \<Rightarrow> int list \<Rightarrow> string \<Rightarrow> string option
     \<Rightarrow> (int \<times> approve_result) list \<times> sellout_db" where
  "approve_uploads db [] actor comment = ([], db)"
| "approve_uploads db (upload_id # ids) actor comment =
     (case approve_one db upload_id (actor_or actor ''approver'') comment of
        (r, db') \<Rightarrow>
          (case approve_uploads db' ids actor comment of
             (rs, db'') \<Rightarrow> ((upload_id, r) # rs, db'')))"

text \<open>The posting scenario: the upload of the preview scenario, in \<open>Draft\<close>, and its two
  lines.\<close>

definition posting_db :: sellout_db where
  "posting_db =
     \<lparr>db_uploads = [preview_upload], db_details = preview_details, db_ledger = [],
      db_approvals = []\<rparr>"

text \<open>The state after the claim \<open>UPDATE\<close> of \<open>approve_one\<close> (used to state its cases).\<close>

definition claimed :: "sellout_db \<Rightarrow> int \<Rightarrow> sellout_db" where
  "claimed db upload_id =
     db\<lparr>db_uploads := map (\<lambda>x. if up_UploadID x = upload_id \<and> up_Status x = ''Draft''
                               then x\<lparr>up_Status := ''Posting''\<rparr> else x) (db_uploads db)\<rparr>"

subsection \<open>Upload validation (\<open>sell_out.upload\<close>)\<close>

text \<open>A parsed row of an uploaded sell-out file: \<open>SellOutQty\<close> is \<open>None\<close> where
  \<open>pd.to_numeric(..., errors="coerce")\<close> gave NaN, \<open>SKU_ID\<close> is \<open>None\<close> where the SKU did
  not resolve; rows without a date were dropped before.\<close>

record sellout_file_row =
  fr_RowNumber :: int
  fr_DocumentDate :: date
  fr_SellOutQty :: "real option"
  fr_SKU_ID :: "int option"

text \<open>The "hard validations" of the upload: the row numbers with a date in the future,
  with a negative quantity, and with a quantity that is not a whole number
  (\<open>qty % 1 != 0\<close>).  The upload is refused when the list is not empty.\<close>

definition upload_validation_errors :: "date \<Rightarrow> sellout_file_row list \<Rightarrow> int list" where
  "upload_validation_errors today rows =
     map fr_RowNumber (filter (\<lambda>r. fr_DocumentDate r > today) rows)
     @ map fr_RowNumber (filter (\<lambda>r. case fr_SellOutQty r of Some q \<Rightarrow> q < 0 | None \<Rightarrow> False) rows)
     @ map fr_RowNumber (filter (\<lambda>r. case fr_SellOutQty r of
                                        Some q \<Rightarrow> q \<noteq> of_int \<lfloor>q\<rfloor> | None \<Rightarrow> False) rows)"

text \<open>The detail lines an accepted upload inserts for its new header \<open>upload_id\<close>: one
  per row with a resolved SKU and a quantity.  The other refusals of the upload (an
  unknown SKU, a duplicate file, no history for a SKU) and the deactivation of the lines
  it supersedes do not touch the quantities and are left out.\<close>

definition upload_details ::
  "date \<Rightarrow> int \<Rightarrow> sellout_file_row list \<Rightarrow> int list + SP_MCSI_SellOut list" where
  "upload_details today upload_id rows =
     (let errors = upload_validation_errors today rows in
      if errors \<noteq> [] then Inl errors
      else Inr (concat (map (\<lambda>r. case (fr_SKU_ID r, fr_SellOutQty r) of
                                     (Some sku_id, Some qty) \<Rightarrow>
                                       [\<lparr>so_UploadID = upload_id, so_SKU_ID = sku_id,
                                         so_RowNumber = fr_RowNumber r,
                                         so_DocumentDate = fr_DocumentDate r,
                                         so_SellOutQty = qty, so_IsActive = True\<rparr>]
                                   | _ \<Rightarrow> []) rows)))"

section \<open>Sell-in capture (\<open>sell_in._ensure_ledger_for_si_row\<close>)\<close>

text \<open>\<open>models.SP_MCSI_SellIn\<close>, with the columns the ledger writer reads.\<close>

record SP_MCSI_SellIn =
  si_SoldToParty :: "string option"
  si_Article :: string
  si_BillingDocument :: "string option"
  si_DocumentDate :: date
  si_GrossSale :: "real option"
  si_ReturnQty :: "real option"

text \<open>\<open>_resolve_customer_id\<close> and \<open>_resolve_sku_id\<close>: the id of the first master row with
  the name; the master tables are lists of (id, name).\<close>

definition resolve_id :: "(int \<times> string) list \<Rightarrow> string option \<Rightarrow> int option" where
  "resolve_id master name =
     (case name of
        None \<Rightarrow> None
      | Some n \<Rightarrow> if n = [] then None
                  else map_option fst (find (\<lambda>(i, nm). nm = n) master))"

text \<open>\<open>_idempotency_key_for_si\<close>; \<open>isoformat\<close> stands for \<open>date.isoformat\<close>.\<close>

definition idempotency_key_for_si :: "(date \<Rightarrow> string) \<Rightarrow> string \<Rightarrow> string \<Rightarrow> date \<Rightarrow> string \<Rightarrow> string" where
  "idempotency_key_for_si isoformat article billing_doc doc_date sold_to =
     ''SI:'' @ article @ '':'' @ billing_doc @ '':'' @ sold_to @ '':'' @ isoformat doc_date"

definition str_or_empty :: "string option \<Rightarrow> string" where
  "str_or_empty s = (case s of Some v \<Rightarrow> v | None \<Rightarrow> [])"

definition sellin_ledger_row ::
  "int \<Rightarrow> int \<Rightarrow> SP_MCSI_SellIn \<Rightarrow> string option \<Rightarrow> real \<Rightarrow> string \<Rightarrow> string \<Rightarrow> SP_InventoryLedger" where
  "sellin_ledger_row cust_id sku_id si_row subtype qty ref_id idem =
     \<lparr>LedgerID = 0, CustomerID = cust_id, SKU_ID = sku_id, DocDate = si_DocumentDate si_row,
      MovementType = ''SELLIN'', MovementSubType = subtype, Qty = qty, UploadID = None,
      RefTable = Some ''SP_MCSI_SellIn'', RefID = Some ref_id, IdempotencyKey = Some idem\<rparr>"

text \<open>\<open>_ensure_ledger_for_si_row\<close>: the result pair and the ledger after it.\<close>

definition ensure_ledger_for_si_row ::
  "(date \<Rightarrow> string) \<Rightarrow> (int \<times> string) list \<Rightarrow> (int \<times> string) list \<Rightarrow> SP_InventoryLedger list
     \<Rightarrow> SP_MCSI_SellIn \<Rightarrow> (bool \<times> string option) \<times> SP_InventoryLedger list" where
  "ensure_ledger_for_si_row isoformat customers skus L si_row =
     (let cust_id = resolve_id customers (si_SoldToParty si_row);
          sku_id = resolve_id skus (Some (si_Article si_row))
      in if \<not> truthy cust_id \<or> \<not> truthy sku_id then ((False, Some ''Mapping not found''), L)
         else
           (let idem = idempotency_key_for_si isoformat (si_Article si_row)
                         (str_or_empty (si_BillingDocument si_row)) (si_DocumentDate si_row)
                         (str_or_empty (si_SoldToParty si_row));
                ref_id = si_Article si_row @ ''/'' @ str_or_empty (si_BillingDocument si_row);
                qty = (case si_GrossSale si_row of Some g \<Rightarrow> g | None \<Rightarrow> 0);
                post1 = (qty > 0 \<and> find (\<lambda>e. IdempotencyKey e = Some idem) L = None);
                L1 = (if post1
                      then add_rows L [sellin_ledger_row (the cust_id) (the sku_id) si_row None qty ref_id idem]
                      else L);
                ret_q = (case si_ReturnQty si_row of Some q \<Rightarrow> q | None \<Rightarrow> 0);
                ret_qty = (if ret_q < 0 then ret_q else - ret_q);
                idem_ret = idem @ '':RET'';
                post2 = (ret_q \<noteq> 0 \<and> find (\<lambda>e. IdempotencyKey e = Some idem_ret) L1 = None);
                L2 = (if post2
                      then add_rows L1 [sellin_ledger_row (the cust_id) (the sku_id) si_row
                                          (Some ''RETURN'') ret_qty (ref_id @ '':RET'') idem_ret]
                      else L1);
                posted_any = (post1 \<or> post2)
            in ((posted_any, if posted_any then None else Some ''No rows posted''), L2)))"

section \<open>The sign invariant of the ledger\<close>

text \<open>The detail lines carry no negative quantity.\<close>

definition details_valid :: "SP_MCSI_SellOut list \<Rightarrow> bool" where
  "details_valid ds = (\<forall>d \<in> set ds. 0 \<le> so_SellOutQty d)"

text \<open>A SELLOUT row holds a quantity that is not positive, a SELLIN return a negative
  one.\<close>

definition ledger_signs_ok :: "SP_InventoryLedger list \<Rightarrow> bool" where
  "ledger_signs_ok L =
     (\<forall>e \<in> set L. (MovementType e = ''SELLOUT'' \<longrightarrow> Qty e \<le> 0)
                \<and> (MovementType e = ''SELLIN'' \<and> MovementSubType e = Some ''RETURN'' \<longrightarrow> Qty e < 0))"

text \<open>A captured sell-in row with a receipt of 50 and a return of 3.\<close>

definition sellin_example :: SP_MCSI_SellIn where
  "sellin_example =
     \<lparr>si_SoldToParty = Some ''ACME'', si_Article = ''A1'', si_BillingDocument = Some ''B9'',
      si_DocumentDate = 5, si_GrossSale = Some 50, si_ReturnQty = Some 3\<rparr>"

text \<open>\<open>soh._post_ledger_adjust\<close>: the snapshot delta row of a stock-on-hand upload;
  \<open>movement_type\<close> is \<open>ADJUST\<close> or \<open>SUPERCEED\<close>.\<close>

definition post_ledger_adjust ::
  "SP_InventoryLedger list \<Rightarrow> int \<Rightarrow> int \<Rightarrow> date \<Rightarrow> real \<Rightarrow> real \<Rightarrow> int \<Rightarrow> int \<Rightarrow> string
     \<Rightarrow> SP_InventoryLedger list" where
  "post_ledger_adjust L customer_id sku_id d new_qty old_qty hdr_id row_num movement_type =
     (let diff = new_qty - old_qty;
          idem = ''SOH_'' @ movement_type @ '':'' @ str_int hdr_id @ '':'' @ str_int row_num
      in add_rows L
           [\<lparr>LedgerID = 0, CustomerID = customer_id, SKU_ID = sku_id, DocDate = d,
             MovementType = movement_type, MovementSubType = None, Qty = diff, UploadID = None,
             RefTable = Some ''SP_SOH_Uploads'', RefID = Some (str_int hdr_id),
             IdempotencyKey = Some idem\<rparr>])"

text \<open>The parsed file whose accepted upload gives the lines of the posting scenario.\<close>

definition sellout_file_example :: "sellout_file_row list" where
  "sellout_file_example =
     [\<lparr>fr_RowNumber = 1, fr_DocumentDate = 5, fr_SellOutQty = Some 4, fr_SKU_ID = Some 1\<rparr>,
      \<lparr>fr_RowNumber = 2, fr_DocumentDate = 5, fr_SellOutQty = Some 8, fr_SKU_ID = Some 1\<rparr>]"

text \<open>What a row appended by \<open>_ensure_ledger_for_si_row\<close> looks like: a receipt with
  the positive \<open>GrossSale\<close>, or a return with the negated magnitude of \<open>ReturnQty\<close>.\<close>

definition sellin_row_ok :: "SP_MCSI_SellIn \<Rightarrow> SP_InventoryLedger \<Rightarrow> bool" where
  "sellin_row_ok si_row e =
     (MovementType e = ''SELLIN''
      \<and> (MovementSubType e = None \<and> si_GrossSale si_row = Some (Qty e) \<and> 0 < Qty e
         \<or> MovementSubType e = Some ''RETURN''
           \<and> (\<exists>q. si_ReturnQty si_row = Some q \<and> Qty e = - \<bar>q\<bar>) \<and> Qty e < 0))"

section \<open>Customer status recompute (\<open>customer_management\<close>)\<close>

text \<open>\<open>models.SP_Customer\<close>, with the columns the recompute reads or writes.\<close>

record SP_Customer =
  cu_CustomerID :: int
  cu_StatusID :: int
  cu_StatusDate :: "date option"

text \<open>The tables of the recompute.  \<open>SP_GlobalConfig\<close> is a list of (Key, parsed Value),
  the second component being the result of Python's \<open>int(Value)\<close>, \<open>None\<close> where it
  raises; \<open>SP_Status\<close> is a list of (StatusID, StatusName); \<open>SP_CustomerStatusTag\<close> is a
  list of (CustomerID, StatusID).\<close>

record status_db =
  sd_config :: "(string \<times> int option) list"
  sd_statuses :: "(int \<times> string) list"
  sd_customers :: "SP_Customer list"
  sd_tags :: "(int \<times> int) list"
  sd_ledger :: "SP_InventoryLedger list"

text \<open>\<open>_get_cfg_int\<close>.\<close>

definition get_cfg_int :: "(string \<times> int option) list \<Rightarrow> string \<Rightarrow> int \<Rightarrow> int" where
  "get_cfg_int cfg key dflt =
     (case find (\<lambda>r. fst r = key) cfg of
        None \<Rightarrow> dflt
      | Some r \<Rightarrow> (case snd r of Some i \<Rightarrow> i | None \<Rightarrow> dflt))"

text \<open>\<open>_get_status_id\<close>: the id of the status with the name, which is created when it
  is missing (\<open>StatusID\<close> is an autoincrement primary key); the result is the id and the
  status table after the call.\<close>

definition next_status_id :: "(int \<times> string) list \<Rightarrow> int" where
  "next_status_id S = (case sql_max (map fst S) of None \<Rightarrow> 1 | Some m \<Rightarrow> m + 1)"

definition get_status_id :: "(int \<times> string) list \<Rightarrow> string \<Rightarrow> int \<times> (int \<times> string) list" where
  "get_status_id S name =
     (case find (\<lambda>s. snd s = name) S of
        Some s \<Rightarrow> (fst s, S)
      | None \<Rightarrow> (next_status_id S, S @ [(next_status_id S, name)]))"

text \<open>\<open>_sync_tags\<close>: \<open>want_ids\<close> is a Python set, here a list of its elements;
  \<open>if s\<close> drops the id 0.  The \<open>DELETE\<close> removes the customer's tags that are not wanted,
  the \<open>MERGE\<close> inserts a wanted tag when it is missing.\<close>

definition sync_tags :: "(int \<times> int) list \<Rightarrow> int \<Rightarrow> int list \<Rightarrow> (int \<times> int) list" where
  "sync_tags T customer_id want_ids =
     (let want = sort (filter (\<lambda>s. s \<noteq> 0) want_ids);
          T1 = (if want \<noteq> []
                then filter (\<lambda>t. \<not> (fst t = customer_id \<and> snd t \<notin> set want)) T
                else filter (\<lambda>t. fst t \<noteq> customer_id) T)
      in fold (\<lambda>sid T'. if (customer_id, sid) \<in> set T' then T' else T' @ [(customer_id, sid)])
           want T1)"

text \<open>The two subqueries \<open>last_in\<close> and \<open>last_out\<close>: per customer, the greatest \<open>DocDate\<close>
  of the ledger rows of one movement type.\<close>

definition last_dates :: "string \<Rightarrow> SP_InventoryLedger list \<Rightarrow> (int \<times> date option) list" where
  "last_dates movement_type L =
     (let rows = filter (\<lambda>e. MovementType e = movement_type) L
      in map (\<lambda>cid. (cid, sql_max (map DocDate (filter (\<lambda>e. CustomerID e = cid) rows))))
           (remdups (map CustomerID rows)))"

text \<open>The left outer join of a customer with one of the subqueries: the dates of the
  matching rows, \<open>NULL\<close> when none matches.\<close>

definition outer_dates :: "(int \<times> date option) list \<Rightarrow> int \<Rightarrow> date option list" where
  "outer_dates sub cid =
     (case filter (\<lambda>r. fst r = cid) sub of [] \<Rightarrow> [None] | ms \<Rightarrow> map snd ms)"

text \<open>The query \<open>rows\<close>: (CustomerID, StatusID, last_in, last_out).\<close>

definition status_rows ::
  "SP_Customer list \<Rightarrow> SP_InventoryLedger list \<Rightarrow> (int \<times> int \<times> date option \<times> date option) list" where
  "status_rows customers L =
     concat (map (\<lambda>c.
       concat (map (\<lambda>d_in.
         map (\<lambda>d_out. (cu_CustomerID c, cu_StatusID c, d_in, d_out))
           (outer_dates (last_dates ''SELLOUT'' L) (cu_CustomerID c)))
         (outer_dates (last_dates ''SELLIN'' L) (cu_CustomerID c)))) customers)"

text \<open>The local variables the loop reads: the date, the thresholds and the status
  ids.\<close>

record recompute_env =
  env_today :: date
  env_dead_days :: int
  env_hib_in_days :: int
  env_hib_out_days :: int
  env_sid_active :: int
  env_sid_dead :: int
  env_sid_disabled :: int
  env_tag_in :: int
  env_tag_out :: int

text \<open>What the loop updates: the customers, the tags and the three counters of
  \<open>tally\<close>.\<close>

record recompute_state =
  rs_customers :: "SP_Customer list"
  rs_tags :: "(int \<times> int) list"
  rs_PrimaryUpdated :: nat
  rs_TagsUpdated :: nat
  rs_SkippedDisabled :: nat

text \<open>\<open>(today - d).days if d else 10**9\<close>; a date is never falsy.\<close>

definition days_since :: "date \<Rightarrow> date option \<Rightarrow> int" where
  "days_since today d = (case d of Some d' \<Rightarrow> today - d' | None \<Rightarrow> 10 ^ 9)"

text \<open>\<open>want_tags\<close> and \<open>new_primary\<close> of one row; the set \<open>want_tags\<close> as a list.\<close>

definition want_tags :: "recompute_env \<Rightarrow> int \<Rightarrow> int \<Rightarrow> int list" where
  "want_tags env ds_in ds_out =
     (let w0 = [];
          w1 = (if ds_in > env_hib_in_days env then List.insert (env_tag_in env) w0 else w0);
          w2 = (if ds_out > env_hib_out_days env then List.insert (env_tag_out env) w1 else w1)
      in w2)"

definition new_primary :: "recompute_env \<Rightarrow> int \<Rightarrow> int \<Rightarrow> int" where
  "new_primary env ds_in ds_out =
     (if ds_in > env_dead_days env \<and> ds_out > env_dead_days env
      then env_sid_dead env else env_sid_active env)"

text \<open>The body of the loop of \<open>_recompute_customer_statuses\<close> for one row.\<close>

definition recompute_row ::
  "recompute_env \<Rightarrow> recompute_state \<Rightarrow> int \<times> int \<times> date option \<times> date option \<Rightarrow> recompute_state" where
  "recompute_row env st row =
     (case row of (cid, cur_sid, d_in, d_out) \<Rightarrow>
        if cur_sid = env_sid_disabled env
        then st\<lparr>rs_SkippedDisabled := rs_SkippedDisabled st + 1\<rparr>
        else
          (let ds_in = days_since (env_today env) d_in;
               ds_out = days_since (env_today env) d_out;
               want = want_tags env ds_in ds_out;
               new_sid = new_primary env ds_in ds_out;
               tags_before = map snd (filter (\<lambda>t. fst t = cid) (rs_tags st));
               st1 = (if set tags_before \<noteq> set want
                      then st\<lparr>rs_tags := sync_tags (rs_tags st) cid want,
                              rs_TagsUpdated := rs_TagsUpdated st + 1\<rparr>
                      else st);
               st2 = (if cur_sid \<noteq> new_sid
                      then st1\<lparr>rs_customers :=
                                 map (\<lambda>c. if cu_CustomerID c = cid
                                           then c\<lparr>cu_StatusID := new_sid,
                                                  cu_StatusDate := Some (env_today env)\<rparr>
                                           else c) (rs_customers st1),
                               rs_PrimaryUpdated := rs_PrimaryUpdated st1 + 1\<rparr>
                      else st1)
           in st2))"

fun recompute_loop ::
  "recompute_env \<Rightarrow> recompute_state \<Rightarrow> (int \<times> int \<times> date option \<times> date option) list
     \<Rightarrow> recompute_state" where
  "recompute_loop env st [] = st"
| "recompute_loop env st (row # rows) = recompute_loop env (recompute_row env st row) rows"

text \<open>The first lines of \<open>_recompute_customer_statuses\<close>: the thresholds, with their
  defaults, and the five status ids, each call of \<open>_get_status_id\<close> working on the table
  the call before left.\<close>

definition recompute_setup :: "date \<Rightarrow> status_db \<Rightarrow> recompute_env \<times> (int \<times> string) list" where
  "recompute_setup today db =
     (let dead_days = get_cfg_int (sd_config db) ''DeadThresholdDays'' 90;
          hib_in_days = get_cfg_int (sd_config db) ''HibernatingSellInThresholdDays'' 30;
          hib_out_days = get_cfg_int (sd_config db) ''HibernatingSellOutThresholdDays'' 30;
          (sid_active, S1) = get_status_id (sd_statuses db) ''Active'';
          (sid_dead, S2) = get_status_id S1 ''DEAD'';
          (sid_disabled, S3) = get_status_id S2 ''Disabled'';
          (tag_in, S4) = get_status_id S3 ''Hibernating-Sell-in'';
          (tag_out, S5) = get_status_id S4 ''Hibernating-Sell-out''
      in (\<lparr>env_today = today, env_dead_days = dead_days, env_hib_in_days = hib_in_days,
            env_hib_out_days = hib_out_days, env_sid_active = sid_active,
            env_sid_dead = sid_dead, env_sid_disabled = sid_disabled, env_tag_in = tag_in,
            env_tag_out = tag_out\<rparr>, S5))"

text \<open>The result of the recompute: \<open>tally\<close> and \<open>thresholds\<close>.\<close>

record recompute_result =
  res_PrimaryUpdated :: nat
  res_TagsUpdated :: nat
  res_SkippedDisabled :: nat
  res_Dead :: int
  res_HibernatingSellIn :: int
  res_HibernatingSellOut :: int

text \<open>\<open>_recompute_customer_statuses\<close>: the result and the tables after the commit.\<close>

definition recompute_customer_statuses :: "date \<Rightarrow> status_db \<Rightarrow> recompute_result \<times> status_db" where
  "recompute_customer_statuses today db =
     (case recompute_setup today db of (env, S) \<Rightarrow>
        (let rows = status_rows (sd_customers db) (sd_ledger db);
             st = recompute_loop env
                    \<lparr>rs_customers = sd_customers db, rs_tags = sd_tags db, rs_PrimaryUpdated = 0,
                      rs_TagsUpdated = 0, rs_SkippedDisabled = 0\<rparr> rows
         in (\<lparr>res_PrimaryUpdated = rs_PrimaryUpdated st, res_TagsUpdated = rs_TagsUpdated st,
               res_SkippedDisabled = rs_SkippedDisabled st, res_Dead = env_dead_days env,
               res_HibernatingSellIn = env_hib_in_days env,
               res_HibernatingSellOut = env_hib_out_days env\<rparr>,
             db\<lparr>sd_statuses := S, sd_customers := rs_customers st, sd_tags := rs_tags st\<rparr>)))"

text \<open>The greatest \<open>DocDate\<close> of the customer's ledger rows of one movement type,
  \<open>NULL\<close> when the customer has none: what the row of the customer holds in \<open>last_in\<close>
  and \<open>last_out\<close>.\<close>

definition last_doc_date :: "string \<Rightarrow> SP_InventoryLedger list \<Rightarrow> int \<Rightarrow> date option" where
  "last_doc_date movement_type L cid =
     sql_max (map DocDate (filter (\<lambda>e. MovementType e = movement_type \<and> CustomerID e = cid) L))"

text \<open>The invariants of the tables the recompute relies on: \<open>StatusID\<close> is a primary key
  generated from 1 on, \<open>CustomerID\<close> is a primary key.\<close>

definition status_table_ok :: "(int \<times> string) list \<Rightarrow> bool" where
  "status_table_ok S = (distinct (map fst S) \<and> list_all (\<lambda>s. 0 < fst s) S)"

text \<open>The recompute scenario, on day 200: the thresholds 90, 30 and 30; customer 1,
  active, with its last sell-in on day 160 and its last sell-out on day 100; customer 2,
  disabled; customer 3, active, with no movement at all.\<close>

definition status_scenario :: status_db where
  "status_scenario =
     \<lparr>sd_config = [(''DeadThresholdDays'', Some 90), (''HibernatingSellInThresholdDays'', Some 30),
                   (''HibernatingSellOutThresholdDays'', Some 30)],
      sd_statuses = [(1, ''Active''), (2, ''DEAD''), (3, ''Disabled''),
                     (4, ''Hibernating-Sell-in''), (5, ''Hibernating-Sell-out'')],
      sd_customers = [\<lparr>cu_CustomerID = 1, cu_StatusID = 1, cu_StatusDate = None\<rparr>,
                      \<lparr>cu_CustomerID = 2, cu_StatusID = 3, cu_StatusDate = None\<rparr>,
                      \<lparr>cu_CustomerID = 3, cu_StatusID = 1, cu_StatusDate = None\<rparr>],
      sd_tags = [],
      sd_ledger = [mk_movement 1 1 1 100 ''SELLOUT'' (- 5), mk_movement 2 1 1 160 ''SELLIN'' 9,
                   mk_movement 3 1 1 90 ''SELLIN'' 4]\<rparr>"

text \<open>A branded snapshot: customer 7 holds 10 of SKU 1 on day 3, uploaded for brand \<open>A\<close>.\<close>

definition branded_soh_uploads :: "SP_SOH_Uploads list" where
  "branded_soh_uploads = [\<lparr>sohu_SOHUploadID = 1, sohu_CustomerID = 7, sohu_Brand = Some ''A''\<rparr>]"

definition branded_soh_detail :: "SP_SOH_Detail list" where
  "branded_soh_detail =
     [\<lparr>sohd_SOHUploadID = 1, sohd_SKU_ID = 1, sohd_RowNumber = 1, sohd_SOHDate = 3,
       sohd_SOHQty = 10, sohd_IsActive = True\<rparr>]"

section \<open>Properties of the query helpers\<close>

lemma sql_max_eq: "sql_max xs = (if xs = [] then None else Some (Max (set xs)))"
proof (induction xs)
  case Nil
  show ?case by simp
next
  case (Cons x xs)
  show ?case
  proof (cases "xs = []")
    case True
    then show ?thesis by simp
  next
    case False
    then have "Max (set (x # xs)) = max x (Max (set xs))"
      by simp
    with Cons False show ?thesis by simp
  qed
qed

lemma first_desc_None: "first_desc k xs = None \<longleftrightarrow> xs = []"
  by (induction xs) (auto split: option.splits)

lemma first_desc_Some:
  "first_desc k xs = Some y \<Longrightarrow> y \<in> set xs \<and> (\<forall>z \<in> set xs. k z \<le> k y)"
proof (induction xs arbitrary: y)
  case Nil
  then show ?case by simp
next
  case (Cons x xs)
  show ?case
  proof (cases "first_desc k xs")
    case None
    then have "xs = []" by (simp add: first_desc_None)
    with Cons.prems show ?thesis by simp
  next
    case (Some w)
    from Cons.IH [OF Some] have w: "w \<in> set xs" "\<forall>z \<in> set xs. k z \<le> k w" by auto
    show ?thesis
    proof (cases "k x < k w")
      case True
      with Cons.prems Some have "y = w" by simp
      with w True show ?thesis by auto
    next
      case False
      with Cons.prems Some have "y = x" by simp
      with w False show ?thesis by (auto intro: order_trans)
    qed
  qed
qed

lemma set_soh_join:
  "set (soh_join SU SD) = {(d, u). d \<in> set SD \<and> u \<in> set SU \<and> sohu_SOHUploadID u = sohd_SOHUploadID d}"
  by (auto simp: soh_join_def)

lemma signed_qty_expr_eq:
  "signed_qty_expr e = (if MovementType e = ''SELLOUT'' then - \<bar>Qty e\<bar> else Qty e)"
  by (simp add: signed_qty_expr_def)

lemma snapshot_qty_on_date_False:
  "snd (snapshot_qty_on_date SU SD c s day) = False \<longleftrightarrow>
     \<not> (\<exists>d \<in> set SD. \<exists>u \<in> set SU. sohu_SOHUploadID u = sohd_SOHUploadID d
           \<and> sohu_CustomerID u = c \<and> sohd_SKU_ID d = s \<and> sohd_IsActive d \<and> sohd_SOHDate d = day)"
proof -
  let ?q = "filter (\<lambda>(d, u). sohu_CustomerID u = c \<and> sohd_SKU_ID d = s \<and> sohd_IsActive d
                              \<and> sohd_SOHDate d = day) (soh_join SU SD)"
  have "snd (snapshot_qty_on_date SU SD c s day) = False \<longleftrightarrow>
          first_desc (\<lambda>(d, u). sohu_SOHUploadID u) ?q = None"
    by (simp add: snapshot_qty_on_date_def Let_def split: option.splits)
  also have "\<dots> \<longleftrightarrow> set ?q = {}"
    by (simp only: first_desc_None set_empty)
  also have "\<dots> \<longleftrightarrow> \<not> (\<exists>d \<in> set SD. \<exists>u \<in> set SU. sohu_SOHUploadID u = sohd_SOHUploadID d
           \<and> sohu_CustomerID u = c \<and> sohd_SKU_ID d = s \<and> sohd_IsActive d \<and> sohd_SOHDate d = day)"
    by (auto simp: set_soh_join)
  finally show ?thesis .
qed

lemma snapshot_qty_on_date_True:
  assumes "snapshot_qty_on_date SU SD c s day = (q, True)"
  shows "\<exists>d u. d \<in> set SD \<and> u \<in> set SU \<and> sohu_SOHUploadID u = sohd_SOHUploadID d
           \<and> sohu_CustomerID u = c \<and> sohd_SKU_ID d = s \<and> sohd_IsActive d \<and> sohd_SOHDate d = day
           \<and> q = sohd_SOHQty d
           \<and> (\<forall>d' u'. d' \<in> set SD \<and> u' \<in> set SU \<and> sohu_SOHUploadID u' = sohd_SOHUploadID d'
                \<and> sohu_CustomerID u' = c \<and> sohd_SKU_ID d' = s \<and> sohd_IsActive d' \<and> sohd_SOHDate d' = day
                \<longrightarrow> sohu_SOHUploadID u' \<le> sohu_SOHUploadID u)"
proof -
  let ?q = "filter (\<lambda>(d, u). sohu_CustomerID u = c \<and> sohd_SKU_ID d = s \<and> sohd_IsActive d
                              \<and> sohd_SOHDate d = day) (soh_join SU SD)"
  from assms obtain d u where fd: "first_desc (\<lambda>(d, u). sohu_SOHUploadID u) ?q = Some (d, u)"
    and q: "q = sohd_SOHQty d"
    by (auto simp: snapshot_qty_on_date_def Let_def split: option.splits)
  from first_desc_Some [OF fd]
  have mem: "(d, u) \<in> set ?q"
    and mx: "\<forall>z \<in> set ?q. (case z of (d, u) \<Rightarrow> sohu_SOHUploadID u) \<le> sohu_SOHUploadID u"
    by auto
  from mem have el: "d \<in> set SD" "u \<in> set SU" "sohu_SOHUploadID u = sohd_SOHUploadID d"
    "sohu_CustomerID u = c" "sohd_SKU_ID d = s" "sohd_IsActive d" "sohd_SOHDate d = day"
    by (auto simp: set_soh_join)
  have "\<forall>d' u'. d' \<in> set SD \<and> u' \<in> set SU \<and> sohu_SOHUploadID u' = sohd_SOHUploadID d'
                \<and> sohu_CustomerID u' = c \<and> sohd_SKU_ID d' = s \<and> sohd_IsActive d' \<and> sohd_SOHDate d' = day
                \<longrightarrow> sohu_SOHUploadID u' \<le> sohu_SOHUploadID u"
  proof (intro allI impI)
    fix d' u'
    assume "d' \<in> set SD \<and> u' \<in> set SU \<and> sohu_SOHUploadID u' = sohd_SOHUploadID d'
                \<and> sohu_CustomerID u' = c \<and> sohd_SKU_ID d' = s \<and> sohd_IsActive d' \<and> sohd_SOHDate d' = day"
    then have "(d', u') \<in> set ?q" by (auto simp: set_soh_join)
    with mx show "sohu_SOHUploadID u' \<le> sohu_SOHUploadID u" by fastforce
  qed
  with el q show ?thesis by blast
qed

lemma latest_active_snapshot_None:
  "fst (latest_active_snapshot SU SD c brand s as_of) = None \<longleftrightarrow>
     \<not> (\<exists>d \<in> set SD. \<exists>u \<in> set SU. sohu_SOHUploadID u = sohd_SOHUploadID d
           \<and> sohu_CustomerID u = c \<and> sohd_SKU_ID d = s \<and> sohd_IsActive d \<and> sohd_SOHDate d \<le> as_of
           \<and> (brand = None \<or> brand = Some [] \<or> sohu_Brand u = brand))"
proof -
  let ?q0 = "filter (\<lambda>(d, u). sohu_CustomerID u = c \<and> sohd_SKU_ID d = s \<and> sohd_IsActive d
                              \<and> sohd_SOHDate d \<le> as_of) (soh_join SU SD)"
  let ?q = "if brand \<noteq> None \<and> brand \<noteq> Some [] then filter (\<lambda>(d, u). sohu_Brand u = brand) ?q0 else ?q0"
  let ?k = "\<lambda>(d, u). (sohd_SOHDate d, sohu_SOHUploadID u)"
  have setq: "set ?q = {(d, u). d \<in> set SD \<and> u \<in> set SU \<and> sohu_SOHUploadID u = sohd_SOHUploadID d
           \<and> sohu_CustomerID u = c \<and> sohd_SKU_ID d = s \<and> sohd_IsActive d \<and> sohd_SOHDate d \<le> as_of
           \<and> (brand = None \<or> brand = Some [] \<or> sohu_Brand u = brand)}"
    by (auto simp: set_soh_join)
  have "fst (latest_active_snapshot SU SD c brand s as_of) = None \<longleftrightarrow> first_desc ?k ?q = None"
    by (simp add: latest_active_snapshot_def Let_def split: option.splits)
  also have "\<dots> \<longleftrightarrow> set ?q = {}"
    by (simp only: first_desc_None set_empty)
  also have "\<dots> \<longleftrightarrow> \<not> (\<exists>d \<in> set SD. \<exists>u \<in> set SU. sohu_SOHUploadID u = sohd_SOHUploadID d
           \<and> sohu_CustomerID u = c \<and> sohd_SKU_ID d = s \<and> sohd_IsActive d \<and> sohd_SOHDate d \<le> as_of
           \<and> (brand = None \<or> brand = Some [] \<or> sohu_Brand u = brand))"
    unfolding setq by blast
  finally show ?thesis .
qed

lemma latest_active_snapshot_Some:
  assumes "latest_active_snapshot SU SD c brand s as_of = (Some sd, q)"
  shows "\<exists>d u. d \<in> set SD \<and> u \<in> set SU \<and> sohu_SOHUploadID u = sohd_SOHUploadID d
           \<and> sohu_CustomerID u = c \<and> sohd_SKU_ID d = s \<and> sohd_IsActive d \<and> sohd_SOHDate d \<le> as_of
           \<and> (brand = None \<or> brand = Some [] \<or> sohu_Brand u = brand)
           \<and> sd = sohd_SOHDate d \<and> q = sohd_SOHQty d
           \<and> (\<forall>d' u'. d' \<in> set SD \<and> u' \<in> set SU \<and> sohu_SOHUploadID u' = sohd_SOHUploadID d'
                \<and> sohu_CustomerID u' = c \<and> sohd_SKU_ID d' = s \<and> sohd_IsActive d' \<and> sohd_SOHDate d' \<le> as_of
                \<and> (brand = None \<or> brand = Some [] \<or> sohu_Brand u' = brand)
                \<longrightarrow> (sohd_SOHDate d', sohu_SOHUploadID u') \<le> (sohd_SOHDate d, sohu_SOHUploadID u))"
proof -
  let ?q0 = "filter (\<lambda>(d, u). sohu_CustomerID u = c \<and> sohd_SKU_ID d = s \<and> sohd_IsActive d
                              \<and> sohd_SOHDate d \<le> as_of) (soh_join SU SD)"
  let ?q = "if brand \<noteq> None \<and> brand \<noteq> Some [] then filter (\<lambda>(d, u). sohu_Brand u = brand) ?q0 else ?q0"
  let ?k = "\<lambda>(d, u). (sohd_SOHDate d, sohu_SOHUploadID u)"
  have setq: "set ?q = {(d, u). d \<in> set SD \<and> u \<in> set SU \<and> sohu_SOHUploadID u = sohd_SOHUploadID d
           \<and> sohu_CustomerID u = c \<and> sohd_SKU_ID d = s \<and> sohd_IsActive d \<and> sohd_SOHDate d \<le> as_of
           \<and> (brand = None \<or> brand = Some [] \<or> sohu_Brand u = brand)}"
    by (auto simp: set_soh_join)
  from assms obtain d u where fd: "first_desc ?k ?q = Some (d, u)"
    and q: "q = sohd_SOHQty d" "sd = sohd_SOHDate d"
    by (auto simp: latest_active_snapshot_def Let_def split: option.splits)
  from first_desc_Some [OF fd]
  have mem: "(d, u) \<in> set ?q" and mx: "\<forall>z \<in> set ?q. ?k z \<le> ?k (d, u)"
    by blast+
  from mem have el: "d \<in> set SD \<and> u \<in> set SU \<and> sohu_SOHUploadID u = sohd_SOHUploadID d
           \<and> sohu_CustomerID u = c \<and> sohd_SKU_ID d = s \<and> sohd_IsActive d \<and> sohd_SOHDate d \<le> as_of
           \<and> (brand = None \<or> brand = Some [] \<or> sohu_Brand u = brand)"
    unfolding setq by blast
  have "\<forall>d' u'. d' \<in> set SD \<and> u' \<in> set SU \<and> sohu_SOHUploadID u' = sohd_SOHUploadID d'
                \<and> sohu_CustomerID u' = c \<and> sohd_SKU_ID d' = s \<and> sohd_IsActive d' \<and> sohd_SOHDate d' \<le> as_of
                \<and> (brand = None \<or> brand = Some [] \<or> sohu_Brand u' = brand)
                \<longrightarrow> (sohd_SOHDate d', sohu_SOHUploadID u') \<le> (sohd_SOHDate d, sohu_SOHUploadID u)"
  proof (intro allI impI)
    fix d' u'
    assume "d' \<in> set SD \<and> u' \<in> set SU \<and> sohu_SOHUploadID u' = sohd_SOHUploadID d'
                \<and> sohu_CustomerID u' = c \<and> sohd_SKU_ID d' = s \<and> sohd_IsActive d' \<and> sohd_SOHDate d' \<le> as_of
                \<and> (brand = None \<or> brand = Some [] \<or> sohu_Brand u' = brand)"
    then have "(d', u') \<in> set ?q" unfolding setq by blast
    with mx have "?k (d', u') \<le> ?k (d, u)" by blast
    then show "(sohd_SOHDate d', sohu_SOHUploadID u') \<le> (sohd_SOHDate d, sohu_SOHUploadID u)" by simp
  qed
  with el q show ?thesis by blast
qed


section \<open>Anchor resolver\<close>

text \<open>
  Claim C8.  The effective anchor of a (customer, SKU) pair at a reporting date is the
  later of the customer anchor and the SKU anchor when both exist, the one that exists
  when only one does, and \<open>None\<close> when neither does.  The customer anchor is the
  greatest ADJUST date of the customer on or before the reporting date, whatever the
  SKU; the SKU anchor is the same with the rows also restricted to the SKU.
\<close>

theorem effective_anchor_for_sku_spec:
  "effective_anchor_for_sku L c s as_of =
     (case (anchor_adjust_date_customer L c as_of, anchor_adjust_date_sku_only L c s as_of) of
        (Some ca, Some sa) \<Rightarrow> Some (max ca sa)
      | (Some ca, None) \<Rightarrow> Some ca
      | (None, Some sa) \<Rightarrow> Some sa
      | (None, None) \<Rightarrow> None)
   \<and> anchor_adjust_date_customer L c as_of =
       (let ds = {DocDate e | e. e \<in> set L \<and> MovementType e = ''ADJUST''
                                 \<and> CustomerID e = c \<and> DocDate e \<le> as_of}
        in if ds = {} then None else Some (Max ds))
   \<and> anchor_adjust_date_sku_only L c s as_of =
       (let ds = {DocDate e | e. e \<in> set L \<and> MovementType e = ''ADJUST''
                                 \<and> CustomerID e = c \<and> SKU_ID e = s \<and> DocDate e \<le> as_of}
        in if ds = {} then None else Some (Max ds))"
proof -
  let ?P = "\<lambda>e. CustomerID e = c \<and> MovementType e = ''ADJUST'' \<and> DocDate e \<le> as_of"
  let ?Q = "\<lambda>e. CustomerID e = c \<and> SKU_ID e = s \<and> MovementType e = ''ADJUST'' \<and> DocDate e \<le> as_of"
  have setP: "set (map DocDate (filter ?P L)) =
      {DocDate e | e. e \<in> set L \<and> MovementType e = ''ADJUST'' \<and> CustomerID e = c \<and> DocDate e \<le> as_of}"
    by auto
  have setQ: "set (map DocDate (filter ?Q L)) =
      {DocDate e | e. e \<in> set L \<and> MovementType e = ''ADJUST'' \<and> CustomerID e = c
                     \<and> SKU_ID e = s \<and> DocDate e \<le> as_of}"
    by auto
  have 1: "effective_anchor_for_sku L c s as_of =
     (case (anchor_adjust_date_customer L c as_of, anchor_adjust_date_sku_only L c s as_of) of
        (Some ca, Some sa) \<Rightarrow> Some (max ca sa)
      | (Some ca, None) \<Rightarrow> Some ca
      | (None, Some sa) \<Rightarrow> Some sa
      | (None, None) \<Rightarrow> None)"
    by (simp add: effective_anchor_for_sku_def Let_def split: option.splits)
  have 2: "anchor_adjust_date_customer L c as_of =
       (let ds = {DocDate e | e. e \<in> set L \<and> MovementType e = ''ADJUST''
                                 \<and> CustomerID e = c \<and> DocDate e \<le> as_of}
        in if ds = {} then None else Some (Max ds))"
    unfolding anchor_adjust_date_customer_def sql_max_eq Let_def setP [symmetric]
    by (simp only: set_empty)
  have 3: "anchor_adjust_date_sku_only L c s as_of =
       (let ds = {DocDate e | e. e \<in> set L \<and> MovementType e = ''ADJUST''
                                 \<and> CustomerID e = c \<and> SKU_ID e = s \<and> DocDate e \<le> as_of}
        in if ds = {} then None else Some (Max ds))"
    unfolding anchor_adjust_date_sku_only_def sql_max_eq Let_def setQ [symmetric]
    by (simp only: set_empty)
  from 1 2 3 show ?thesis by blast
qed

section \<open>Anchored balance\<close>

text \<open>
  Claim C4.  When the effective anchor resolves and an active snapshot of the pair lies
  exactly on the anchor date, the balance is the quantity of such a snapshot, plus the
  signed quantities of the pair's rows on the anchor date other than ADJUST rows, plus
  the signed quantities of all the pair's rows after the anchor date up to the reporting
  date.  Signed means: a SELLOUT row counts as minus the absolute value of its quantity,
  every other row (SELLIN, ADJUST) as its stored quantity.
\<close>

theorem closing_soh_anchored_snapshot_on_anchor:
  assumes anchor: "effective_anchor_for_sku L c s as_of = Some anchor"
      and snap: "\<exists>d \<in> set SD. \<exists>u \<in> set SU. sohu_SOHUploadID u = sohd_SOHUploadID d
                   \<and> sohu_CustomerID u = c \<and> sohd_SKU_ID d = s \<and> sohd_IsActive d
                   \<and> sohd_SOHDate d = anchor"
  shows "\<exists>d u. d \<in> set SD \<and> u \<in> set SU \<and> sohu_SOHUploadID u = sohd_SOHUploadID d
           \<and> sohu_CustomerID u = c \<and> sohd_SKU_ID d = s \<and> sohd_IsActive d
           \<and> sohd_SOHDate d = anchor
           \<and> closing_soh_anchored L SU SD c s as_of =
               sohd_SOHQty d
               + (\<Sum>e \<leftarrow> filter (\<lambda>e. CustomerID e = c \<and> SKU_ID e = s \<and> DocDate e = anchor
                                       \<and> MovementType e \<noteq> ''ADJUST'') L.
                     if MovementType e = ''SELLOUT'' then - \<bar>Qty e\<bar> else Qty e)
               + (\<Sum>e \<leftarrow> filter (\<lambda>e. CustomerID e = c \<and> SKU_ID e = s \<and> anchor < DocDate e
                                       \<and> DocDate e \<le> as_of) L.
                     if MovementType e = ''SELLOUT'' then - \<bar>Qty e\<bar> else Qty e)"
proof -
  obtain q b where qb: "snapshot_qty_on_date SU SD c s anchor = (q, b)"
    by (cases "snapshot_qty_on_date SU SD c s anchor")
  from snap have "snd (snapshot_qty_on_date SU SD c s anchor) \<noteq> False"
    unfolding snapshot_qty_on_date_False by blast
  with qb have b: "b = True" by simp
  from snapshot_qty_on_date_True [OF qb [unfolded b]]
  obtain d u where el: "d \<in> set SD" "u \<in> set SU" "sohu_SOHUploadID u = sohd_SOHUploadID d"
      "sohu_CustomerID u = c" "sohd_SKU_ID d = s" "sohd_IsActive d" "sohd_SOHDate d = anchor"
      and q: "q = sohd_SOHQty d"
    by blast
  have sg: "signed_qty_expr = (\<lambda>e. if MovementType e = ''SELLOUT'' then - \<bar>Qty e\<bar> else Qty e)"
    by (rule ext) (rule signed_qty_expr_eq)
  have "closing_soh_anchored L SU SD c s as_of =
          q + sum_signed_on_date_excl_adjust L c s anchor + sum_signed_after_date L c s anchor as_of"
    by (simp add: closing_soh_anchored_def anchor qb b)
  then have "closing_soh_anchored L SU SD c s as_of =
               sohd_SOHQty d
               + (\<Sum>e \<leftarrow> filter (\<lambda>e. CustomerID e = c \<and> SKU_ID e = s \<and> DocDate e = anchor
                                       \<and> MovementType e \<noteq> ''ADJUST'') L.
                     if MovementType e = ''SELLOUT'' then - \<bar>Qty e\<bar> else Qty e)
               + (\<Sum>e \<leftarrow> filter (\<lambda>e. CustomerID e = c \<and> SKU_ID e = s \<and> anchor < DocDate e
                                       \<and> DocDate e \<le> as_of) L.
                     if MovementType e = ''SELLOUT'' then - \<bar>Qty e\<bar> else Qty e)"
    by (simp add: q sum_signed_on_date_excl_adjust_def sum_signed_after_date_def sg)
  with el show ?thesis by blast
qed

text \<open>The balance scenario with a snapshot of 100 on the anchor day: 100 + 50 - 30.\<close>

lemma scenario_anchor: "effective_anchor_for_sku scenario_ledger 7 1 10 = Some 1"
  by (simp add: scenario_ledger_def mk_movement_def effective_anchor_for_sku_def
      anchor_adjust_date_customer_def anchor_adjust_date_sku_only_def)

theorem closing_soh_anchored_snapshot_on_anchor_witness:
  "effective_anchor_for_sku scenario_ledger 7 1 10 = Some 1
   \<and> closing_soh_anchored scenario_ledger scenario_soh_uploads scenario_soh_detail 7 1 10 = 120"
proof -
  have snap: "\<exists>d \<in> set scenario_soh_detail. \<exists>u \<in> set scenario_soh_uploads.
                sohu_SOHUploadID u = sohd_SOHUploadID d
                \<and> sohu_CustomerID u = 7 \<and> sohd_SKU_ID d = 1 \<and> sohd_IsActive d \<and> sohd_SOHDate d = 1"
    by (simp add: scenario_soh_detail_def scenario_soh_uploads_def)
  from closing_soh_anchored_snapshot_on_anchor [OF scenario_anchor snap]
  have "closing_soh_anchored scenario_ledger scenario_soh_uploads scenario_soh_detail 7 1 10 = 120"
    by (auto simp: scenario_soh_detail_def scenario_soh_uploads_def scenario_ledger_def mk_movement_def)
  with scenario_anchor show ?thesis by simp
qed

section \<open>Balance without an anchor\<close>

lemma fallback_without_anchor_unbranded:
  assumes no_anchor: "effective_anchor_for_sku L c s as_of = None"
  shows "if (\<exists>d \<in> set SD. \<exists>u \<in> set SU. sohu_SOHUploadID u = sohd_SOHUploadID d
               \<and> sohu_CustomerID u = c \<and> sohd_SKU_ID d = s \<and> sohd_IsActive d
               \<and> sohd_SOHDate d \<le> as_of)
         then (\<exists>d u. d \<in> set SD \<and> u \<in> set SU \<and> sohu_SOHUploadID u = sohd_SOHUploadID d
                 \<and> sohu_CustomerID u = c \<and> sohd_SKU_ID d = s \<and> sohd_IsActive d
                 \<and> sohd_SOHDate d \<le> as_of
                 \<and> (\<forall>d' u'. d' \<in> set SD \<and> u' \<in> set SU
                       \<and> sohu_SOHUploadID u' = sohd_SOHUploadID d'
                       \<and> sohu_CustomerID u' = c \<and> sohd_SKU_ID d' = s \<and> sohd_IsActive d'
                       \<and> sohd_SOHDate d' \<le> as_of
                       \<longrightarrow> (sohd_SOHDate d', sohu_SOHUploadID u') \<le> (sohd_SOHDate d, sohu_SOHUploadID u))
                 \<and> closing_soh_anchored L SU SD c s as_of =
                     sohd_SOHQty d
                     + (\<Sum>e \<leftarrow> filter (\<lambda>e. CustomerID e = c \<and> SKU_ID e = s
                                             \<and> sohd_SOHDate d < DocDate e \<and> DocDate e \<le> as_of) L.
                           if MovementType e = ''SELLOUT'' then - \<bar>Qty e\<bar> else Qty e)
                 \<and> balance_as_of L SU SD c None s as_of =
                     sohd_SOHQty d
                     + (\<Sum>e \<leftarrow> filter (\<lambda>e. CustomerID e = c \<and> SKU_ID e = s
                                             \<and> sohd_SOHDate d < DocDate e \<and> DocDate e \<le> as_of) L.
                           Qty e))
         else (closing_soh_anchored L SU SD c s as_of = 0
               \<and> balance_as_of L SU SD c None s as_of =
                   (\<Sum>e \<leftarrow> filter (\<lambda>e. CustomerID e = c \<and> SKU_ID e = s \<and> DocDate e \<le> as_of) L.
                       Qty e))"
proof -
  let ?ex = "\<exists>d \<in> set SD. \<exists>u \<in> set SU. sohu_SOHUploadID u = sohd_SOHUploadID d
               \<and> sohu_CustomerID u = c \<and> sohd_SKU_ID d = s \<and> sohd_IsActive d
               \<and> sohd_SOHDate d \<le> as_of"
  obtain sd q where las: "latest_active_snapshot SU SD c None s as_of = (sd, q)"
    by (cases "latest_active_snapshot SU SD c None s as_of")
  have sg: "signed_qty_expr = (\<lambda>e. if MovementType e = ''SELLOUT'' then - \<bar>Qty e\<bar> else Qty e)"
    by (rule ext) (rule signed_qty_expr_eq)
  have none_iff: "sd = None \<longleftrightarrow> \<not> ?ex"
    using latest_active_snapshot_None [of SU SD c None s as_of] las by simp
  show ?thesis
  proof (cases ?ex)
    case False
    with none_iff have sd: "sd = None" by simp
    have "latest_active_snapshot SU SD c None s as_of = (None, 0)"
      using las sd by (auto simp: latest_active_snapshot_def Let_def split: option.splits)
    with las sd have q: "q = 0" by simp
    have 1: "closing_soh_anchored L SU SD c s as_of = 0"
      by (simp add: closing_soh_anchored_def no_anchor las sd)
    have 2: "balance_as_of L SU SD c None s as_of =
               (\<Sum>e \<leftarrow> filter (\<lambda>e. CustomerID e = c \<and> SKU_ID e = s \<and> DocDate e \<le> as_of) L. Qty e)"
      by (simp add: balance_as_of_def las sd q sum_ledger_between_def)
    show ?thesis by (subst if_not_P [OF False]) (rule conjI [OF 1 2])
  next
    case True
    with none_iff obtain day where sd: "sd = Some day" by (cases sd) auto
    from latest_active_snapshot_Some [OF las [unfolded sd]]
    obtain d u where el: "d \<in> set SD \<and> u \<in> set SU \<and> sohu_SOHUploadID u = sohd_SOHUploadID d
                 \<and> sohu_CustomerID u = c \<and> sohd_SKU_ID d = s \<and> sohd_IsActive d
                 \<and> sohd_SOHDate d \<le> as_of"
      and day: "day = sohd_SOHDate d" and q: "q = sohd_SOHQty d"
      and mx: "\<forall>d' u'. d' \<in> set SD \<and> u' \<in> set SU
                       \<and> sohu_SOHUploadID u' = sohd_SOHUploadID d'
                       \<and> sohu_CustomerID u' = c \<and> sohd_SKU_ID d' = s \<and> sohd_IsActive d'
                       \<and> sohd_SOHDate d' \<le> as_of
                       \<longrightarrow> (sohd_SOHDate d', sohu_SOHUploadID u') \<le> (sohd_SOHDate d, sohu_SOHUploadID u)"
      by auto
    have 1: "closing_soh_anchored L SU SD c s as_of =
                     sohd_SOHQty d
                     + (\<Sum>e \<leftarrow> filter (\<lambda>e. CustomerID e = c \<and> SKU_ID e = s
                                             \<and> sohd_SOHDate d < DocDate e \<and> DocDate e \<le> as_of) L.
                           if MovementType e = ''SELLOUT'' then - \<bar>Qty e\<bar> else Qty e)"
      by (simp add: closing_soh_anchored_def no_anchor las sd day q sg)
    have ff: "filter (\<lambda>e. sohd_SOHDate d < DocDate e)
                (filter (\<lambda>e. CustomerID e = c \<and> SKU_ID e = s \<and> DocDate e \<le> as_of) L)
            = filter (\<lambda>e. CustomerID e = c \<and> SKU_ID e = s
                           \<and> sohd_SOHDate d < DocDate e \<and> DocDate e \<le> as_of) L"
      unfolding filter_filter by (rule filter_cong) auto
    have "balance_as_of L SU SD c None s as_of =
            q + sum_list (map Qty (filter (\<lambda>e. day < DocDate e)
                (filter (\<lambda>e. CustomerID e = c \<and> SKU_ID e = s \<and> DocDate e \<le> as_of) L)))"
      by (simp add: balance_as_of_def las sd sum_ledger_between_def del: filter_filter)
    then have 2: "balance_as_of L SU SD c None s as_of =
                     sohd_SOHQty d
                     + (\<Sum>e \<leftarrow> filter (\<lambda>e. CustomerID e = c \<and> SKU_ID e = s
                                             \<and> sohd_SOHDate d < DocDate e \<and> DocDate e \<le> as_of) L.
                           Qty e)"
      unfolding day q ff .
    show ?thesis by (subst if_P [OF True]) (use el mx 1 2 in blast)
  qed
qed

lemma balance_as_of_brand:
  "if (\<exists>d \<in> set SD. \<exists>u \<in> set SU. sohu_SOHUploadID u = sohd_SOHUploadID d
          \<and> sohu_CustomerID u = c \<and> sohd_SKU_ID d = s \<and> sohd_IsActive d
          \<and> sohd_SOHDate d \<le> as_of
          \<and> (brand = None \<or> brand = Some [] \<or> sohu_Brand u = brand))
   then (\<exists>d u. d \<in> set SD \<and> u \<in> set SU \<and> sohu_SOHUploadID u = sohd_SOHUploadID d
           \<and> sohu_CustomerID u = c \<and> sohd_SKU_ID d = s \<and> sohd_IsActive d
           \<and> sohd_SOHDate d \<le> as_of
           \<and> (brand = None \<or> brand = Some [] \<or> sohu_Brand u = brand)
           \<and> (\<forall>d' u'. d' \<in> set SD \<and> u' \<in> set SU
                 \<and> sohu_SOHUploadID u' = sohd_SOHUploadID d'
                 \<and> sohu_CustomerID u' = c \<and> sohd_SKU_ID d' = s \<and> sohd_IsActive d'
                 \<and> sohd_SOHDate d' \<le> as_of
                 \<and> (brand = None \<or> brand = Some [] \<or> sohu_Brand u' = brand)
                 \<longrightarrow> (sohd_SOHDate d', sohu_SOHUploadID u') \<le> (sohd_SOHDate d, sohu_SOHUploadID u))
           \<and> balance_as_of L SU SD c brand s as_of =
               sohd_SOHQty d
               + (\<Sum>e \<leftarrow> filter (\<lambda>e. CustomerID e = c \<and> SKU_ID e = s
                                       \<and> sohd_SOHDate d < DocDate e \<and> DocDate e \<le> as_of) L.
                     Qty e))
   else balance_as_of L SU SD c brand s as_of =
          (\<Sum>e \<leftarrow> filter (\<lambda>e. CustomerID e = c \<and> SKU_ID e = s \<and> DocDate e \<le> as_of) L. Qty e)"
proof -
  let ?ex = "\<exists>d \<in> set SD. \<exists>u \<in> set SU. sohu_SOHUploadID u = sohd_SOHUploadID d
          \<and> sohu_CustomerID u = c \<and> sohd_SKU_ID d = s \<and> sohd_IsActive d
          \<and> sohd_SOHDate d \<le> as_of
          \<and> (brand = None \<or> brand = Some [] \<or> sohu_Brand u = brand)"
  obtain sd q where las: "latest_active_snapshot SU SD c brand s as_of = (sd, q)"
    by (cases "latest_active_snapshot SU SD c brand s as_of")
  have none_iff: "sd = None \<longleftrightarrow> \<not> ?ex"
    using latest_active_snapshot_None [of SU SD c brand s as_of] las by simp
  show ?thesis
  proof (cases ?ex)
    case False
    with none_iff have sd: "sd = None" by simp
    have 2: "balance_as_of L SU SD c brand s as_of =
               (\<Sum>e \<leftarrow> filter (\<lambda>e. CustomerID e = c \<and> SKU_ID e = s \<and> DocDate e \<le> as_of) L. Qty e)"
    proof -
      have "latest_active_snapshot SU SD c brand s as_of = (None, 0)"
        using las sd by (auto simp: latest_active_snapshot_def Let_def split: option.splits)
      with las sd have q: "q = 0" by simp
      show ?thesis by (simp add: balance_as_of_def las sd q sum_ledger_between_def)
    qed
    show ?thesis by (subst if_not_P [OF False]) (rule 2)
  next
    case True
    with none_iff obtain day where sd: "sd = Some day" by (cases sd) auto
    from latest_active_snapshot_Some [OF las [unfolded sd]]
    obtain d u where el: "d \<in> set SD \<and> u \<in> set SU \<and> sohu_SOHUploadID u = sohd_SOHUploadID d
                 \<and> sohu_CustomerID u = c \<and> sohd_SKU_ID d = s \<and> sohd_IsActive d
                 \<and> sohd_SOHDate d \<le> as_of
                 \<and> (brand = None \<or> brand = Some [] \<or> sohu_Brand u = brand)"
      and day: "day = sohd_SOHDate d" and q: "q = sohd_SOHQty d"
      and mx: "\<forall>d' u'. d' \<in> set SD \<and> u' \<in> set SU
                       \<and> sohu_SOHUploadID u' = sohd_SOHUploadID d'
                       \<and> sohu_CustomerID u' = c \<and> sohd_SKU_ID d' = s \<and> sohd_IsActive d'
                       \<and> sohd_SOHDate d' \<le> as_of
                       \<and> (brand = None \<or> brand = Some [] \<or> sohu_Brand u' = brand)
                       \<longrightarrow> (sohd_SOHDate d', sohu_SOHUploadID u') \<le> (sohd_SOHDate d, sohu_SOHUploadID u)"
      by blast
    have ff: "filter (\<lambda>e. sohd_SOHDate d < DocDate e)
                (filter (\<lambda>e. CustomerID e = c \<and> SKU_ID e = s \<and> DocDate e \<le> as_of) L)
            = filter (\<lambda>e. CustomerID e = c \<and> SKU_ID e = s
                           \<and> sohd_SOHDate d < DocDate e \<and> DocDate e \<le> as_of) L"
      unfolding filter_filter by (rule filter_cong) auto
    have "balance_as_of L SU SD c brand s as_of =
            q + sum_list (map Qty (filter (\<lambda>e. day < DocDate e)
                (filter (\<lambda>e. CustomerID e = c \<and> SKU_ID e = s \<and> DocDate e \<le> as_of) L)))"
      by (simp add: balance_as_of_def las sd sum_ledger_between_def del: filter_filter)
    then have 2: "balance_as_of L SU SD c brand s as_of =
                     sohd_SOHQty d
                     + (\<Sum>e \<leftarrow> filter (\<lambda>e. CustomerID e = c \<and> SKU_ID e = s
                                             \<and> sohd_SOHDate d < DocDate e \<and> DocDate e \<le> as_of) L.
                           Qty e)"
      unfolding day q ff .
    show ?thesis by (subst if_P [OF True]) (use el mx 2 in blast)
  qed
qed

text \<open>
  Claim C5, as amended.  Neither balance function has a failing branch.  When the pair has
  no effective anchor, \<open>closing_soh_anchored\<close> returns the quantity of a latest active
  snapshot on or before the reporting date plus the signed quantities of the pair's rows
  after the snapshot date up to the reporting date, and 0 when there is no such snapshot.
  The balance of the approval preview, \<open>balance_as_of\<close>, never consults the anchor: it
  looks for a latest active snapshot on or before the date among the snapshots of the
  upload's brand when the upload has a (non-empty) brand, among all the snapshots of the
  customer otherwise, and returns its quantity plus the stored quantities of the pair's
  rows after the snapshot date up to the date; when it finds no snapshot it returns the
  sum of the stored quantities of all the pair's rows up to the date, not 0.
\<close>

theorem balance_fallback_without_anchor:
  "(effective_anchor_for_sku L c s as_of = None \<longrightarrow>
      (if (\<exists>d \<in> set SD. \<exists>u \<in> set SU. sohu_SOHUploadID u = sohd_SOHUploadID d
               \<and> sohu_CustomerID u = c \<and> sohd_SKU_ID d = s \<and> sohd_IsActive d
               \<and> sohd_SOHDate d \<le> as_of)
         then (\<exists>d u. d \<in> set SD \<and> u \<in> set SU \<and> sohu_SOHUploadID u = sohd_SOHUploadID d
                 \<and> sohu_CustomerID u = c \<and> sohd_SKU_ID d = s \<and> sohd_IsActive d
                 \<and> sohd_SOHDate d \<le> as_of
                 \<and> (\<forall>d' u'. d' \<in> set SD \<and> u' \<in> set SU
                       \<and> sohu_SOHUploadID u' = sohd_SOHUploadID d'
                       \<and> sohu_CustomerID u' = c \<and> sohd_SKU_ID d' = s \<and> sohd_IsActive d'
                       \<and> sohd_SOHDate d' \<le> as_of
                       \<longrightarrow> (sohd_SOHDate d', sohu_SOHUploadID u') \<le> (sohd_SOHDate d, sohu_SOHUploadID u))
                 \<and> closing_soh_anchored L SU SD c s as_of =
                     sohd_SOHQty d
                     + (\<Sum>e \<leftarrow> filter (\<lambda>e. CustomerID e = c \<and> SKU_ID e = s
                                             \<and> sohd_SOHDate d < DocDate e \<and> DocDate e \<le> as_of) L.
                           if MovementType e = ''SELLOUT'' then - \<bar>Qty e\<bar> else Qty e)
                 \<and> balance_as_of L SU SD c None s as_of =
                     sohd_SOHQty d
                     + (\<Sum>e \<leftarrow> filter (\<lambda>e. CustomerID e = c \<and> SKU_ID e = s
                                             \<and> sohd_SOHDate d < DocDate e \<and> DocDate e \<le> as_of) L.
                           Qty e))
         else (closing_soh_anchored L SU SD c s as_of = 0
               \<and> balance_as_of L SU SD c None s as_of =
                   (\<Sum>e \<leftarrow> filter (\<lambda>e. CustomerID e = c \<and> SKU_ID e = s \<and> DocDate e \<le> as_of) L.
                       Qty e))))
   \<and> (if (\<exists>d \<in> set SD. \<exists>u \<in> set SU. sohu_SOHUploadID u = sohd_SOHUploadID d
          \<and> sohu_CustomerID u = c \<and> sohd_SKU_ID d = s \<and> sohd_IsActive d
          \<and> sohd_SOHDate d \<le> as_of
          \<and> (brand = None \<or> brand = Some [] \<or> sohu_Brand u = brand))
   then (\<exists>d u. d \<in> set SD \<and> u \<in> set SU \<and> sohu_SOHUploadID u = sohd_SOHUploadID d
           \<and> sohu_CustomerID u = c \<and> sohd_SKU_ID d = s \<and> sohd_IsActive d
           \<and> sohd_SOHDate d \<le> as_of
           \<and> (brand = None \<or> brand = Some [] \<or> sohu_Brand u = brand)
           \<and> (\<forall>d' u'. d' \<in> set SD \<and> u' \<in> set SU
                 \<and> sohu_SOHUploadID u' = sohd_SOHUploadID d'
                 \<and> sohu_CustomerID u' = c \<and> sohd_SKU_ID d' = s \<and> sohd_IsActive d'
                 \<and> sohd_SOHDate d' \<le> as_of
                 \<and> (brand = None \<or> brand = Some [] \<or> sohu_Brand u' = brand)
                 \<longrightarrow> (sohd_SOHDate d', sohu_SOHUploadID u') \<le> (sohd_SOHDate d, sohu_SOHUploadID u))
           \<and> balance_as_of L SU SD c brand s as_of =
               sohd_SOHQty d
               + (\<Sum>e \<leftarrow> filter (\<lambda>e. CustomerID e = c \<and> SKU_ID e = s
                                       \<and> sohd_SOHDate d < DocDate e \<and> DocDate e \<le> as_of) L.
                     Qty e))
   else balance_as_of L SU SD c brand s as_of =
          (\<Sum>e \<leftarrow> filter (\<lambda>e. CustomerID e = c \<and> SKU_ID e = s \<and> DocDate e \<le> as_of) L. Qty e))"
proof
  show "effective_anchor_for_sku L c s as_of = None \<longrightarrow>
      (if (\<exists>d \<in> set SD. \<exists>u \<in> set SU. sohu_SOHUploadID u = sohd_SOHUploadID d
               \<and> sohu_CustomerID u = c \<and> sohd_SKU_ID d = s \<and> sohd_IsActive d
               \<and> sohd_SOHDate d \<le> as_of)
         then (\<exists>d u. d \<in> set SD \<and> u \<in> set SU \<and> sohu_SOHUploadID u = sohd_SOHUploadID d
                 \<and> sohu_CustomerID u = c \<and> sohd_SKU_ID d = s \<and> sohd_IsActive d
                 \<and> sohd_SOHDate d \<le> as_of
                 \<and> (\<forall>d' u'. d' \<in> set SD \<and> u' \<in> set SU
                       \<and> sohu_SOHUploadID u' = sohd_SOHUploadID d'
                       \<and> sohu_CustomerID u' = c \<and> sohd_SKU_ID d' = s \<and> sohd_IsActive d'
                       \<and> sohd_SOHDate d' \<le> as_of
                       \<longrightarrow> (sohd_SOHDate d', sohu_SOHUploadID u') \<le> (sohd_SOHDate d, sohu_SOHUploadID u))
                 \<and> closing_soh_anchored L SU SD c s as_of =
                     sohd_SOHQty d
                     + (\<Sum>e \<leftarrow> filter (\<lambda>e. CustomerID e = c \<and> SKU_ID e = s
                                             \<and> sohd_SOHDate d < DocDate e \<and> DocDate e \<le> as_of) L.
                           if MovementType e = ''SELLOUT'' then - \<bar>Qty e\<bar> else Qty e)
                 \<and> balance_as_of L SU SD c None s as_of =
                     sohd_SOHQty d
                     + (\<Sum>e \<leftarrow> filter (\<lambda>e. CustomerID e = c \<and> SKU_ID e = s
                                             \<and> sohd_SOHDate d < DocDate e \<and> DocDate e \<le> as_of) L.
                           Qty e))
         else (closing_soh_anchored L SU SD c s as_of = 0
               \<and> balance_as_of L SU SD c None s as_of =
                   (\<Sum>e \<leftarrow> filter (\<lambda>e. CustomerID e = c \<and> SKU_ID e = s \<and> DocDate e \<le> as_of) L.
                       Qty e)))"
    using fallback_without_anchor_unbranded [of L c s as_of SD SU] by (rule impI)
  show "if (\<exists>d \<in> set SD. \<exists>u \<in> set SU. sohu_SOHUploadID u = sohd_SOHUploadID d
          \<and> sohu_CustomerID u = c \<and> sohd_SKU_ID d = s \<and> sohd_IsActive d
          \<and> sohd_SOHDate d \<le> as_of
          \<and> (brand = None \<or> brand = Some [] \<or> sohu_Brand u = brand))
   then (\<exists>d u. d \<in> set SD \<and> u \<in> set SU \<and> sohu_SOHUploadID u = sohd_SOHUploadID d
           \<and> sohu_CustomerID u = c \<and> sohd_SKU_ID d = s \<and> sohd_IsActive d
           \<and> sohd_SOHDate d \<le> as_of
           \<and> (brand = None \<or> brand = Some [] \<or> sohu_Brand u = brand)
           \<and> (\<forall>d' u'. d' \<in> set SD \<and> u' \<in> set SU
                 \<and> sohu_SOHUploadID u' = sohd_SOHUploadID d'
                 \<and> sohu_CustomerID u' = c \<and> sohd_SKU_ID d' = s \<and> sohd_IsActive d'
                 \<and> sohd_SOHDate d' \<le> as_of
                 \<and> (brand = None \<or> brand = Some [] \<or> sohu_Brand u' = brand)
                 \<longrightarrow> (sohd_SOHDate d', sohu_SOHUploadID u') \<le> (sohd_SOHDate d, sohu_SOHUploadID u))
           \<and> balance_as_of L SU SD c brand s as_of =
               sohd_SOHQty d
               + (\<Sum>e \<leftarrow> filter (\<lambda>e. CustomerID e = c \<and> SKU_ID e = s
                                       \<and> sohd_SOHDate d < DocDate e \<and> DocDate e \<le> as_of) L.
                     Qty e))
   else balance_as_of L SU SD c brand s as_of =
          (\<Sum>e \<leftarrow> filter (\<lambda>e. CustomerID e = c \<and> SKU_ID e = s \<and> DocDate e \<le> as_of) L. Qty e)"
    by (rule balance_as_of_brand)
qed

text \<open>The claim as stated fails for \<open>balance_as_of\<close>: no anchor, no snapshot, one
  receipt of 5, and the balance is 5.\<close>

theorem balance_as_of_no_snapshot_counterexample:
  "effective_anchor_for_sku unanchored_ledger 7 1 10 = None
   \<and> fst (latest_active_snapshot [] [] 7 None 1 10) = None
   \<and> balance_as_of unanchored_ledger [] [] 7 None 1 10 = 5
   \<and> balance_as_of unanchored_ledger [] [] 7 None 1 10 \<noteq> 0"
  by (simp add: unanchored_ledger_def mk_movement_def effective_anchor_for_sku_def
      anchor_adjust_date_customer_def anchor_adjust_date_sku_only_def
      latest_active_snapshot_def soh_join_def balance_as_of_def sum_ledger_between_def)

text \<open>The fallback scenario: the pair has no anchor and one receipt of 5 on day 5.  With
  the branded snapshot of 10 on day 3, the anchored balance and the preview balance of an
  upload without a brand or of brand \<open>A\<close> are 15; the preview balance of an upload of
  brand \<open>B\<close> finds no snapshot and is 5; without any snapshot the anchored balance is
  0.\<close>

lemmas fallback_eval_defs =
  unanchored_ledger_def mk_movement_def branded_soh_uploads_def branded_soh_detail_def

theorem balance_fallback_without_anchor_witness:
  "effective_anchor_for_sku unanchored_ledger 7 1 10 = None
   \<and> closing_soh_anchored unanchored_ledger branded_soh_uploads branded_soh_detail 7 1 10 = 15
   \<and> balance_as_of unanchored_ledger branded_soh_uploads branded_soh_detail 7 None 1 10 = 15
   \<and> balance_as_of unanchored_ledger branded_soh_uploads branded_soh_detail 7 (Some ''A'') 1 10 = 15
   \<and> balance_as_of unanchored_ledger branded_soh_uploads branded_soh_detail 7 (Some ''B'') 1 10 = 5
   \<and> closing_soh_anchored unanchored_ledger [] [] 7 1 10 = 0"
proof -
  have a: "effective_anchor_for_sku unanchored_ledger 7 1 10 = None"
    by (simp add: unanchored_ledger_def mk_movement_def effective_anchor_for_sku_def
      anchor_adjust_date_customer_def anchor_adjust_date_sku_only_def)
  note thA = balance_fallback_without_anchor [of unanchored_ledger 7 1 10 branded_soh_detail branded_soh_uploads "Some ''A''"]
  note thB = balance_fallback_without_anchor [of unanchored_ledger 7 1 10 branded_soh_detail branded_soh_uploads "Some ''B''"]
  note thE = balance_fallback_without_anchor [of unanchored_ledger 7 1 10 "[]" "[]" None]
  from mp [OF thA [THEN conjunct1] a]
  have 1: "closing_soh_anchored unanchored_ledger branded_soh_uploads branded_soh_detail 7 1 10 = 15
         \<and> balance_as_of unanchored_ledger branded_soh_uploads branded_soh_detail 7 None 1 10 = 15"
    by (simp add: fallback_eval_defs)
  from thA [THEN conjunct2]
  have 2: "balance_as_of unanchored_ledger branded_soh_uploads branded_soh_detail 7 (Some ''A'') 1 10 = 15"
    by (simp add: fallback_eval_defs)
  from thB [THEN conjunct2]
  have 3: "balance_as_of unanchored_ledger branded_soh_uploads branded_soh_detail 7 (Some ''B'') 1 10 = 5"
    by (simp add: fallback_eval_defs)
  from mp [OF thE [THEN conjunct1] a]
  have 4: "closing_soh_anchored unanchored_ledger [] [] 7 1 10 = 0"
    by simp
  from a 1 2 3 4 show ?thesis by simp
qed

section \<open>FIFO aging: lookups per (customer, SKU)\<close>

lemma filter_eq_distinct:
  "distinct ks \<Longrightarrow> filter (\<lambda>k. k = k0) ks = (if k0 \<in> set ks then [k0] else [])"
  by (induction ks) auto

lemma filter_eq_remdups:
  "filter (\<lambda>k. k = k0) (remdups ks) = (if k0 \<in> set ks then [k0] else [])"
  using filter_eq_distinct [of "remdups ks" k0] by simp

lemma filter_concat_keyed:
  assumes "distinct ks"
      and "\<And>k x. k \<in> set ks \<Longrightarrow> x \<in> set (f k) \<Longrightarrow> key x = k"
  shows "filter (\<lambda>x. key x = k0) (concat (map f ks)) = (if k0 \<in> set ks then f k0 else [])"
  using assms
proof (induction ks)
  case Nil
  then show ?case by simp
next
  case (Cons k ks)
  have IH: "filter (\<lambda>x. key x = k0) (concat (map f ks)) = (if k0 \<in> set ks then f k0 else [])"
    using Cons by auto
  have own: "\<And>x. x \<in> set (f k) \<Longrightarrow> key x = k" using Cons.prems(2) by simp
  show ?case
  proof (cases "k = k0")
    case True
    then have "k0 \<notin> set ks" using Cons.prems(1) by auto
    moreover have "filter (\<lambda>x. key x = k0) (f k) = f k"
      using own True by (auto intro: filter_True)
    ultimately show ?thesis using IH True by simp
  next
    case False
    have "filter (\<lambda>x. key x = k0) (f k) = []"
      using own False by (auto simp: filter_empty_conv)
    then show ?thesis using IH False by auto
  qed
qed

lemma concat_map_if_filter:
  "concat (map (\<lambda>e. if P e then [e] else []) xs) = filter P xs"
  by (induction xs) auto

lemma sql_min_None: "sql_min xs = None \<longleftrightarrow> xs = []"
  by (induction xs) (auto split: option.splits)

text \<open>AdjustDates has at most one row per customer.\<close>

lemma AdjustDates_lookup:
  "filter (\<lambda>(c, a). c = c0) (AdjustDates L as_of cid) =
     (case sql_min (map DocDate (filter (\<lambda>e. MovementType e = ''ADJUST'' \<and> DocDate e \<le> as_of
                                           \<and> matches cid (CustomerID e) \<and> CustomerID e = c0) L)) of
        Some adj \<Rightarrow> [(c0, adj)]
      | None \<Rightarrow> [])"
proof -
  let ?rows = "filter (\<lambda>e. MovementType e = ''ADJUST'' \<and> DocDate e \<le> as_of
                              \<and> matches cid (CustomerID e)) L"
  let ?f = "\<lambda>c. case sql_min (map DocDate (filter (\<lambda>e. CustomerID e = c) ?rows)) of
                              Some adjust_date \<Rightarrow> [(c, adjust_date)]
                            | None \<Rightarrow> []"
  have ff: "filter (\<lambda>e. CustomerID e = c0) ?rows =
            filter (\<lambda>e. MovementType e = ''ADJUST'' \<and> DocDate e \<le> as_of
                                           \<and> matches cid (CustomerID e) \<and> CustomerID e = c0) L"
    unfolding filter_filter by (rule filter_cong) auto
  have "filter (\<lambda>x. fst x = c0) (concat (map ?f (remdups (map CustomerID ?rows))))
        = (if c0 \<in> set (remdups (map CustomerID ?rows)) then ?f c0 else [])"
    by (rule filter_concat_keyed) (auto split: option.splits)
  moreover have "c0 \<notin> set (map CustomerID ?rows) \<Longrightarrow> ?f c0 = []"
  proof -
    assume "c0 \<notin> set (map CustomerID ?rows)"
    then have "filter (\<lambda>e. CustomerID e = c0) ?rows = []"
      by (auto simp: filter_empty_conv)
    then show "?f c0 = []" by (simp del: filter_filter)
  qed
  ultimately have "filter (\<lambda>x. fst x = c0) (AdjustDates L as_of cid) = ?f c0"
    unfolding AdjustDates_def Let_def by (auto simp del: filter_filter)
  moreover have "(\<lambda>x::int \<times> int. fst x = c0) = (\<lambda>(c, a). c = c0)" by auto
  ultimately show ?thesis unfolding ff by simp
qed

lemma Movements_eq_filter:
  "Movements L as_of cid sid =
     filter (\<lambda>e. DocDate e \<le> as_of \<and> matches sid (SKU_ID e) \<and> matches cid (CustomerID e)
     \<and> (\<exists>adj. sql_min (map DocDate (filter (\<lambda>a. MovementType a = ''ADJUST'' \<and> DocDate a \<le> as_of
                                           \<and> CustomerID a = CustomerID e) L)) = Some adj
             \<and> adj \<le> DocDate e)) L"
proof -
  let ?P = "\<lambda>e. DocDate e \<le> as_of \<and> matches sid (SKU_ID e) \<and> matches cid (CustomerID e)
     \<and> (\<exists>adj. sql_min (map DocDate (filter (\<lambda>a. MovementType a = ''ADJUST'' \<and> DocDate a \<le> as_of
                                           \<and> CustomerID a = CustomerID e) L)) = Some adj
             \<and> adj \<le> DocDate e)"
  have one: "map (\<lambda>a. e)
                    (filter (\<lambda>(c, adjust_date). CustomerID e = c
                                \<and> DocDate e \<le> as_of
                                \<and> DocDate e \<ge> adjust_date
                                \<and> matches sid (SKU_ID e)
                                \<and> matches cid (CustomerID e))
                            (AdjustDates L as_of cid)) = (if ?P e then [e] else [])" for e
  proof -
    let ?Q = "\<lambda>(c::int, adjust_date). DocDate e \<le> as_of \<and> DocDate e \<ge> adjust_date
                                \<and> matches sid (SKU_ID e) \<and> matches cid (CustomerID e)"
    have split: "filter (\<lambda>(c, adjust_date). CustomerID e = c
                                \<and> DocDate e \<le> as_of
                                \<and> DocDate e \<ge> adjust_date
                                \<and> matches sid (SKU_ID e)
                                \<and> matches cid (CustomerID e))
                            (AdjustDates L as_of cid)
         = filter ?Q (filter (\<lambda>(c, a). c = CustomerID e) (AdjustDates L as_of cid))"
      unfolding filter_filter by (rule filter_cong) auto
    have same: "matches cid (CustomerID e) \<Longrightarrow>
        filter (\<lambda>a. MovementType a = ''ADJUST'' \<and> DocDate a \<le> as_of
                                           \<and> matches cid (CustomerID a) \<and> CustomerID a = CustomerID e) L
      = filter (\<lambda>a. MovementType a = ''ADJUST'' \<and> DocDate a \<le> as_of
                                           \<and> CustomerID a = CustomerID e) L"
      by (rule filter_cong) auto
    show ?thesis
    proof (cases "matches cid (CustomerID e)")
      case False
      then show ?thesis by (simp add: filter_empty_conv split_def)
    next
      case True
      show ?thesis
        unfolding split AdjustDates_lookup same [OF True]
        using True by (auto split: option.splits)
    qed
  qed
  show ?thesis
    unfolding Movements_def one
    by (rule concat_map_if_filter)
qed


lemma filter_concat_map_push:
  assumes "\<And>x y. x \<in> set xs \<Longrightarrow> y \<in> set (J x) \<Longrightarrow> Pa y \<longleftrightarrow> Pr x"
  shows "filter Pa (concat (map J xs)) = concat (map J (filter Pr xs))"
  using assms
proof (induction xs)
  case Nil
  then show ?case by simp
next
  case (Cons x xs)
  have IH: "filter Pa (concat (map J xs)) = concat (map J (filter Pr xs))"
    using Cons by auto
  have own: "\<And>y. y \<in> set (J x) \<Longrightarrow> Pa y \<longleftrightarrow> Pr x" using Cons.prems by simp
  show ?case
  proof (cases "Pr x")
    case True
    then have "filter Pa (J x) = J x" using own by (auto intro: filter_True)
    with True IH show ?thesis by simp
  next
    case False
    then have "filter Pa (J x) = []" using own by (auto simp: filter_empty_conv)
    with False IH show ?thesis by simp
  qed
qed

lemma Totals_lookup:
  "filter (\<lambda>t. t_CustomerID t = c \<and> t_SKU_ID t = s) (Totals M) =
     (if (c, s) \<in> set (map (\<lambda>m. (CustomerID m, SKU_ID m)) M)
      then [\<lparr>t_CustomerID = c, t_SKU_ID = s,
             total_issues = (\<Sum>m \<leftarrow> filter (\<lambda>m. CustomerID m = c \<and> SKU_ID m = s) M.
                               if Qty m < 0 then - Qty m else 0),
             total_receipts = (\<Sum>m \<leftarrow> filter (\<lambda>m. CustomerID m = c \<and> SKU_ID m = s) M.
                               if Qty m > 0 then Qty m else 0),
             last_movement_date = sql_max (map DocDate (filter (\<lambda>m. CustomerID m = c \<and> SKU_ID m = s) M)),
             last_sellout_date = sql_max (map DocDate (filter (\<lambda>m. Qty m < 0)
                                    (filter (\<lambda>m. CustomerID m = c \<and> SKU_ID m = s) M)))\<rparr>]
      else [])"
proof -
  let ?g = "\<lambda>(c, s). let g = filter (\<lambda>m. CustomerID m = c \<and> SKU_ID m = s) M in
            \<lparr>t_CustomerID = c, t_SKU_ID = s,
             total_issues = (\<Sum>m \<leftarrow> g. if Qty m < 0 then - Qty m else 0),
             total_receipts = (\<Sum>m \<leftarrow> g. if Qty m > 0 then Qty m else 0),
             last_movement_date = sql_max (map DocDate g),
             last_sellout_date = sql_max (map DocDate (filter (\<lambda>m. Qty m < 0) g))\<rparr>"
  let ?ks = "remdups (map (\<lambda>m. (CustomerID m, SKU_ID m)) M)"
  have key: "((\<lambda>t. t_CustomerID t = c \<and> t_SKU_ID t = s) \<circ> ?g) = (\<lambda>k. k = (c, s))"
    by (auto simp: fun_eq_iff Let_def)
  have "filter (\<lambda>t. t_CustomerID t = c \<and> t_SKU_ID t = s) (map ?g ?ks)
          = map ?g (filter (\<lambda>k. k = (c, s)) ?ks)"
    unfolding filter_map key ..
  also have "\<dots> = (if (c, s) \<in> set (map (\<lambda>m. (CustomerID m, SKU_ID m)) M) then [?g (c, s)] else [])"
    unfolding filter_eq_remdups by simp
  finally show ?thesis
    unfolding Totals_def by (simp add: Let_def del: filter_filter set_map)
qed

lemma window_sums_pair:
  "x \<in> set (window_sums prev ms) \<Longrightarrow>
     \<exists>m \<in> set ms. r_CustomerID x = CustomerID m \<and> r_SKU_ID x = SKU_ID m"
  by (induction ms arbitrary: prev) auto

lemma length_window_sums: "length (window_sums prev ms) = length ms"
  by (induction ms arbitrary: prev) auto

lemma window_sums_nth:
  "i < length ms \<Longrightarrow>
     r_CustomerID (window_sums prev ms ! i) = CustomerID (ms ! i)
   \<and> r_SKU_ID (window_sums prev ms ! i) = SKU_ID (ms ! i)
   \<and> r_lot_date (window_sums prev ms ! i) = DocDate (ms ! i)
   \<and> r_LedgerID (window_sums prev ms ! i) = LedgerID (ms ! i)
   \<and> r_lot_qty (window_sums prev ms ! i) = Qty (ms ! i)
   \<and> coalesce (r_cum_in_prev (window_sums prev ms ! i)) 0
       = coalesce prev 0 + sum_list (map Qty (take i ms))"
proof (induction ms arbitrary: prev i)
  case Nil
  then show ?case by simp
next
  case (Cons m ms)
  show ?case
  proof (cases i)
    case 0
    then show ?thesis by simp
  next
    case (Suc j)
    with Cons.prems have j: "j < length ms" by simp
    from Cons.IH [OF j, of "Some (coalesce prev 0 + Qty m)"]
    show ?thesis using Suc by (simp add: coalesce_def add.assoc)
  qed
qed

lemma Receipts_lookup:
  "filter (\<lambda>r. r_CustomerID r = c \<and> r_SKU_ID r = s) (Receipts M) =
     window_sums None
       (sort_key (\<lambda>m. (DocDate m, LedgerID m))
          (filter (\<lambda>m. CustomerID m = c \<and> SKU_ID m = s) (filter (\<lambda>m. Qty m > 0) M)))"
proof -
  let ?rows = "filter (\<lambda>m. Qty m > 0) M"
  let ?f = "\<lambda>(c, s). window_sums None
                        (sort_key (\<lambda>m. (DocDate m, LedgerID m))
                           (filter (\<lambda>m. CustomerID m = c \<and> SKU_ID m = s) ?rows))"
  let ?ks = "remdups (map (\<lambda>m. (CustomerID m, SKU_ID m)) ?rows)"
  have keyed: "\<And>k x. k \<in> set ?ks \<Longrightarrow> x \<in> set (?f k) \<Longrightarrow> (r_CustomerID x, r_SKU_ID x) = k"
  proof -
    fix k x assume "k \<in> set ?ks" and x: "x \<in> set (?f k)"
    obtain c' s' where k: "k = (c', s')" by (cases k)
    from x k window_sums_pair [of x None "sort_key (\<lambda>m. (DocDate m, LedgerID m))
                           (filter (\<lambda>m. CustomerID m = c' \<and> SKU_ID m = s') ?rows)"]
    show "(r_CustomerID x, r_SKU_ID x) = k" by (auto simp del: filter_filter)
  qed
  have "filter (\<lambda>x. (r_CustomerID x, r_SKU_ID x) = (c, s)) (concat (map ?f ?ks))
          = (if (c, s) \<in> set ?ks then ?f (c, s) else [])"
    by (rule filter_concat_keyed [OF _ keyed]) auto
  moreover have "(c, s) \<notin> set ?ks \<Longrightarrow> ?f (c, s) = []"
  proof -
    assume "(c, s) \<notin> set ?ks"
    then have "filter (\<lambda>m. CustomerID m = c \<and> SKU_ID m = s) ?rows = []"
      by (auto simp: filter_empty_conv)
    then show "?f (c, s) = []" by (simp del: filter_filter)
  qed
  ultimately have "filter (\<lambda>x. (r_CustomerID x, r_SKU_ID x) = (c, s)) (concat (map ?f ?ks)) = ?f (c, s)"
    by auto
  then show ?thesis
    unfolding Receipts_def Let_def by (simp del: filter_filter)
qed


lemma concat_map_singleton:
  "(\<And>x. x \<in> set xs \<Longrightarrow> J x = [f x]) \<Longrightarrow> concat (map J xs) = map f xs"
  by (induction xs) auto

lemma Allocated_lookup:
  "filter (\<lambda>a. a_CustomerID a = c \<and> a_SKU_ID a = s) (Allocated M) =
     map (\<lambda>r. Allocated_of r
                 (Some (\<Sum>m \<leftarrow> filter (\<lambda>m. CustomerID m = c \<and> SKU_ID m = s) M.
                          if Qty m < 0 then - Qty m else 0)))
         (window_sums None
            (sort_key (\<lambda>m. (DocDate m, LedgerID m))
               (filter (\<lambda>m. CustomerID m = c \<and> SKU_ID m = s) (filter (\<lambda>m. Qty m > 0) M))))"
proof -
  let ?J = "\<lambda>r. case filter (\<lambda>t. t_CustomerID t = r_CustomerID r \<and> t_SKU_ID t = r_SKU_ID r)
                                (Totals M) of
                         [] \<Rightarrow> [Allocated_of r None]
                       | ts \<Rightarrow> map (\<lambda>t. Allocated_of r (Some (total_issues t))) ts"
  let ?lots = "sort_key (\<lambda>m. (DocDate m, LedgerID m))
               (filter (\<lambda>m. CustomerID m = c \<and> SKU_ID m = s) (filter (\<lambda>m. Qty m > 0) M))"
  let ?ti = "\<Sum>m \<leftarrow> filter (\<lambda>m. CustomerID m = c \<and> SKU_ID m = s) M.
                          if Qty m < 0 then - Qty m else 0"
  have pres: "\<And>r y. y \<in> set (?J r) \<Longrightarrow>
      (a_CustomerID y = c \<and> a_SKU_ID y = s) \<longleftrightarrow> (r_CustomerID r = c \<and> r_SKU_ID r = s)"
    by (auto simp: Allocated_of_def split: list.splits)
  have 1: "filter (\<lambda>a. a_CustomerID a = c \<and> a_SKU_ID a = s) (concat (map ?J (Receipts M)))
         = concat (map ?J (filter (\<lambda>r. r_CustomerID r = c \<and> r_SKU_ID r = s) (Receipts M)))"
    by (rule filter_concat_map_push) (rule pres)
  have 2: "?J r = [Allocated_of r (Some ?ti)]" if r: "r \<in> set (window_sums None ?lots)" for r
  proof -
    from window_sums_pair [OF r] obtain m where m: "m \<in> set ?lots"
      and rc: "r_CustomerID r = CustomerID m" "r_SKU_ID r = SKU_ID m" by blast
    from m have mM: "m \<in> set M" "CustomerID m = c" "SKU_ID m = s" by auto
    then have inp: "(c, s) \<in> set (map (\<lambda>m. (CustomerID m, SKU_ID m)) M)" by force
    have "filter (\<lambda>t. t_CustomerID t = r_CustomerID r \<and> t_SKU_ID t = r_SKU_ID r) (Totals M)
        = filter (\<lambda>t. t_CustomerID t = c \<and> t_SKU_ID t = s) (Totals M)"
      using rc mM by simp
    then show ?thesis
      unfolding Totals_lookup using inp by (simp del: filter_filter set_map)
  qed
  show ?thesis
    unfolding Allocated_def 1 Receipts_lookup
    by (rule concat_map_singleton) (rule 2)
qed

lemma LiveLayers_lookup:
  "filter (\<lambda>l. ll_CustomerID l = c \<and> ll_SKU_ID l = s) (LiveLayers M as_of) =
     concat (map (\<lambda>a. case remaining_qty a of
                         Some rem \<Rightarrow>
                           if rem > 0 then
                             [\<lparr>ll_CustomerID = a_CustomerID a, ll_SKU_ID = a_SKU_ID a,
                               ll_lot_date = a_lot_date a, ll_remaining_qty = rem,
                               ll_age_days = as_of - a_lot_date a\<rparr>]
                           else []
                       | None \<Rightarrow> [])
                 (filter (\<lambda>a. a_CustomerID a = c \<and> a_SKU_ID a = s) (Allocated M)))"
  unfolding LiveLayers_def
  by (rule filter_concat_map_push) (auto split: option.splits if_splits)

lemma coalesce_simps: "coalesce None d = d" "coalesce (Some v) d = v"
  by (simp_all add: coalesce_def)

lemma consumed_expr_Some:
  "consumed_expr (Some ti) cp q =
     Some (if ti \<le> coalesce cp 0 then 0
           else if ti \<ge> coalesce cp 0 + q then q
           else ti - coalesce cp 0)"
  by (simp add: consumed_expr_def)

lemma live_of_allocated:
  assumes "\<And>a. a \<in> set A \<Longrightarrow> a_CustomerID a = c \<and> a_SKU_ID a = s \<and> remaining_qty a \<noteq> None"
  shows "concat (map (\<lambda>a. case remaining_qty a of
                         Some rem \<Rightarrow>
                           if rem > 0 then
                             [\<lparr>ll_CustomerID = a_CustomerID a, ll_SKU_ID = a_SKU_ID a,
                               ll_lot_date = a_lot_date a, ll_remaining_qty = rem,
                               ll_age_days = as_of - a_lot_date a\<rparr>]
                           else []
                       | None \<Rightarrow> []) A) =
           map (\<lambda>a. \<lparr>ll_CustomerID = c, ll_SKU_ID = s, ll_lot_date = a_lot_date a,
                      ll_remaining_qty = the (remaining_qty a),
                      ll_age_days = as_of - a_lot_date a\<rparr>)
               (filter (\<lambda>a. the (remaining_qty a) > 0) A)"
  using assms
proof (induction A)
  case Nil
  then show ?case by simp
next
  case (Cons a A)
  from Cons.prems [of a] obtain rem where a: "remaining_qty a = Some rem"
    "a_CustomerID a = c" "a_SKU_ID a = s" by auto
  have IH: "concat (map (\<lambda>a. case remaining_qty a of
                         Some rem \<Rightarrow>
                           if rem > 0 then
                             [\<lparr>ll_CustomerID = a_CustomerID a, ll_SKU_ID = a_SKU_ID a,
                               ll_lot_date = a_lot_date a, ll_remaining_qty = rem,
                               ll_age_days = as_of - a_lot_date a\<rparr>]
                           else []
                       | None \<Rightarrow> []) A) =
           map (\<lambda>a. \<lparr>ll_CustomerID = c, ll_SKU_ID = s, ll_lot_date = a_lot_date a,
                      ll_remaining_qty = the (remaining_qty a),
                      ll_age_days = as_of - a_lot_date a\<rparr>)
               (filter (\<lambda>a. the (remaining_qty a) > 0) A)"
    by (rule Cons.IH) (rule Cons.prems, simp)
  show ?case by (simp add: a IH)
qed

section \<open>FIFO allocation\<close>

text \<open>
  Claim C1.  For a (customer, SKU) pair and a reporting date, the lots are the movements
  of positive quantity in the window from the customer's earliest ADJUST date to the
  reporting date, ordered by (DocDate, LedgerID).  For the lot at position \<open>i\<close>, with
  \<open>cum_in_prev\<close> the sum of the quantities of the lots before it: the consumed quantity
  is 0 when the total issues do not exceed \<open>cum_in_prev\<close>, the whole lot when they
  reach \<open>cum_in_prev + lot_qty\<close>, and \<open>total_issues - cum_in_prev\<close> otherwise; the
  remaining quantity is the lot quantity minus the consumed quantity; and the live layers
  of the pair are exactly the lots with a positive remaining quantity, in lot order.
\<close>

theorem fifo_allocation:
  fixes L :: "SP_InventoryLedger list" and as_of :: date and c s :: int
    and customer_id sku_id :: "int option"
  defines "M \<equiv> Movements L as_of customer_id sku_id"
  defines "lots \<equiv> sort_key (\<lambda>m. (DocDate m, LedgerID m))
                    (filter (\<lambda>m. CustomerID m = c \<and> SKU_ID m = s \<and> Qty m > 0) M)"
  defines "issues \<equiv> (\<Sum>m \<leftarrow> filter (\<lambda>m. CustomerID m = c \<and> SKU_ID m = s) M.
                         if Qty m < 0 then - Qty m else 0)"
  defines "A \<equiv> filter (\<lambda>a. a_CustomerID a = c \<and> a_SKU_ID a = s) (Allocated M)"
  shows "sorted (map (\<lambda>m. (DocDate m, LedgerID m)) lots)
       \<and> set lots = {m \<in> set L. CustomerID m = c \<and> SKU_ID m = s \<and> Qty m > 0
                        \<and> DocDate m \<le> as_of
                        \<and> matches sku_id (SKU_ID m) \<and> matches customer_id (CustomerID m)
                        \<and> (\<exists>anchor_date.
                              sql_min (map DocDate (filter (\<lambda>a. MovementType a = ''ADJUST''
                                         \<and> DocDate a \<le> as_of \<and> CustomerID a = c) L)) = Some anchor_date
                              \<and> anchor_date \<le> DocDate m)}
       \<and> length A = length lots
       \<and> (\<forall>i < length lots.
            a_lot_date (A ! i) = DocDate (lots ! i)
          \<and> a_LedgerID (A ! i) = LedgerID (lots ! i)
          \<and> a_lot_qty (A ! i) = Qty (lots ! i)
          \<and> a_cum_in_prev (A ! i) = sum_list (map Qty (take i lots))
          \<and> a_total_issues (A ! i) = issues
          \<and> consumed_qty (A ! i) =
              Some (if issues \<le> sum_list (map Qty (take i lots)) then 0
                    else if issues \<ge> sum_list (map Qty (take i lots)) + Qty (lots ! i) then Qty (lots ! i)
                    else issues - sum_list (map Qty (take i lots)))
          \<and> remaining_qty (A ! i) = map_option (\<lambda>x. Qty (lots ! i) - x) (consumed_qty (A ! i)))
       \<and> filter (\<lambda>l. ll_CustomerID l = c \<and> ll_SKU_ID l = s) (LiveLayers M as_of) =
           map (\<lambda>a. \<lparr>ll_CustomerID = c, ll_SKU_ID = s, ll_lot_date = a_lot_date a,
                      ll_remaining_qty = the (remaining_qty a),
                      ll_age_days = as_of - a_lot_date a\<rparr>)
               (filter (\<lambda>a. the (remaining_qty a) > 0) A)"
proof -
  let ?key = "\<lambda>m. (DocDate m, LedgerID m)"
  have lots_alt: "lots = sort_key ?key
               (filter (\<lambda>m. CustomerID m = c \<and> SKU_ID m = s) (filter (\<lambda>m. Qty m > 0) M))"
    unfolding lots_def filter_filter
    by (rule arg_cong [where f = "sort_key ?key"], rule filter_cong) auto
  have A_eq: "A = map (\<lambda>r. Allocated_of r (Some issues)) (window_sums None lots)"
    unfolding A_def issues_def lots_alt by (rule Allocated_lookup)
  have 1: "sorted (map ?key lots)"
    unfolding lots_def by (rule sorted_sort_key)
  have 2: "set lots = {m \<in> set L. CustomerID m = c \<and> SKU_ID m = s \<and> Qty m > 0
                        \<and> DocDate m \<le> as_of
                        \<and> matches sku_id (SKU_ID m) \<and> matches customer_id (CustomerID m)
                        \<and> (\<exists>anchor_date.
                              sql_min (map DocDate (filter (\<lambda>a. MovementType a = ''ADJUST''
                                         \<and> DocDate a \<le> as_of \<and> CustomerID a = c) L)) = Some anchor_date
                              \<and> anchor_date \<le> DocDate m)}"
    unfolding lots_def M_def Movements_eq_filter by auto
  have 3: "length A = length lots"
    unfolding A_eq by (simp add: length_window_sums)
  have 4: "\<forall>i < length lots.
            a_lot_date (A ! i) = DocDate (lots ! i)
          \<and> a_LedgerID (A ! i) = LedgerID (lots ! i)
          \<and> a_lot_qty (A ! i) = Qty (lots ! i)
          \<and> a_cum_in_prev (A ! i) = sum_list (map Qty (take i lots))
          \<and> a_total_issues (A ! i) = issues
          \<and> consumed_qty (A ! i) =
              Some (if issues \<le> sum_list (map Qty (take i lots)) then 0
                    else if issues \<ge> sum_list (map Qty (take i lots)) + Qty (lots ! i) then Qty (lots ! i)
                    else issues - sum_list (map Qty (take i lots)))
          \<and> remaining_qty (A ! i) = map_option (\<lambda>x. Qty (lots ! i) - x) (consumed_qty (A ! i))"
  proof (intro allI impI)
    fix i assume i: "i < length lots"
    from window_sums_nth [OF i, of None]
    have w: "r_lot_date (window_sums None lots ! i) = DocDate (lots ! i)"
            "r_LedgerID (window_sums None lots ! i) = LedgerID (lots ! i)"
            "r_lot_qty (window_sums None lots ! i) = Qty (lots ! i)"
            "coalesce (r_cum_in_prev (window_sums None lots ! i)) 0 = sum_list (map Qty (take i lots))"
      by (simp_all add: coalesce_simps)
    have Ai: "A ! i = Allocated_of (window_sums None lots ! i) (Some issues)"
      unfolding A_eq using i by (simp add: length_window_sums)
    show "a_lot_date (A ! i) = DocDate (lots ! i)
          \<and> a_LedgerID (A ! i) = LedgerID (lots ! i)
          \<and> a_lot_qty (A ! i) = Qty (lots ! i)
          \<and> a_cum_in_prev (A ! i) = sum_list (map Qty (take i lots))
          \<and> a_total_issues (A ! i) = issues
          \<and> consumed_qty (A ! i) =
              Some (if issues \<le> sum_list (map Qty (take i lots)) then 0
                    else if issues \<ge> sum_list (map Qty (take i lots)) + Qty (lots ! i) then Qty (lots ! i)
                    else issues - sum_list (map Qty (take i lots)))
          \<and> remaining_qty (A ! i) = map_option (\<lambda>x. Qty (lots ! i) - x) (consumed_qty (A ! i))"
      unfolding Ai Allocated_of_def
      by (simp add: w consumed_expr_Some coalesce_simps)
  qed
  have pairA: "\<And>a. a \<in> set A \<Longrightarrow> a_CustomerID a = c \<and> a_SKU_ID a = s \<and> remaining_qty a \<noteq> None"
  proof -
    fix a assume a: "a \<in> set A"
    then have "a_CustomerID a = c \<and> a_SKU_ID a = s" unfolding A_def by simp
    moreover from a have "remaining_qty a \<noteq> None"
      unfolding A_eq by (auto simp: Allocated_of_def consumed_expr_Some)
    ultimately show "a_CustomerID a = c \<and> a_SKU_ID a = s \<and> remaining_qty a \<noteq> None" by simp
  qed
  have 5: "filter (\<lambda>l. ll_CustomerID l = c \<and> ll_SKU_ID l = s) (LiveLayers M as_of) =
           map (\<lambda>a. \<lparr>ll_CustomerID = c, ll_SKU_ID = s, ll_lot_date = a_lot_date a,
                      ll_remaining_qty = the (remaining_qty a),
                      ll_age_days = as_of - a_lot_date a\<rparr>)
               (filter (\<lambda>a. the (remaining_qty a) > 0) A)"
    unfolding LiveLayers_lookup A_def [symmetric]
    by (rule live_of_allocated) (rule pairA)
  show ?thesis by (rule conjI [OF 1 conjI [OF 2 conjI [OF 3 conjI [OF 4 5]]]])
qed


text \<open>The scenario: the lot of 40 is consumed whole, the lot of 60 is consumed by 30.\<close>

lemmas fifo_eval_defs =
  fifo_ledger_def mk_movement_def Movements_def AdjustDates_def matches_def truthy_def
  Totals_def Receipts_def Allocated_def Allocated_of_def consumed_expr_def coalesce_def
  LiveLayers_def LiveLayersFiltered_def Buckets_def bucket_stmt_def layer_stmt_def

lemma fifo_ledger_lots:
  "sort_key (\<lambda>m. (DocDate m, LedgerID m))
     (filter (\<lambda>m. CustomerID m = 7 \<and> SKU_ID m = 1 \<and> Qty m > 0) (Movements fifo_ledger 20 None None))
   = [mk_movement 1 7 1 1 ''ADJUST'' 40, mk_movement 2 7 1 10 ''SELLIN'' 60]"
  by (simp add: fifo_eval_defs)

lemma fifo_ledger_issues:
  "(\<Sum>m \<leftarrow> filter (\<lambda>m. CustomerID m = 7 \<and> SKU_ID m = 1) (Movements fifo_ledger 20 None None).
       if Qty m < 0 then - Qty m else 0) = 70"
  by (simp add: fifo_eval_defs)

theorem fifo_allocation_witness:
  "(1::nat) < length (sort_key (\<lambda>m. (DocDate m, LedgerID m))
       (filter (\<lambda>m. CustomerID m = 7 \<and> SKU_ID m = 1 \<and> Qty m > 0) (Movements fifo_ledger 20 None None)))
   \<and> consumed_qty (filter (\<lambda>a. a_CustomerID a = 7 \<and> a_SKU_ID a = 1)
                      (Allocated (Movements fifo_ledger 20 None None)) ! 0) = Some 40
   \<and> consumed_qty (filter (\<lambda>a. a_CustomerID a = 7 \<and> a_SKU_ID a = 1)
                      (Allocated (Movements fifo_ledger 20 None None)) ! 1) = Some 30
   \<and> remaining_qty (filter (\<lambda>a. a_CustomerID a = 7 \<and> a_SKU_ID a = 1)
                      (Allocated (Movements fifo_ledger 20 None None)) ! 1) = Some 30"
proof -
  let ?lots = "sort_key (\<lambda>m. (DocDate m, LedgerID m))
       (filter (\<lambda>m. CustomerID m = 7 \<and> SKU_ID m = 1 \<and> Qty m > 0) (Movements fifo_ledger 20 None None))"
  let ?A = "filter (\<lambda>a. a_CustomerID a = 7 \<and> a_SKU_ID a = 1)
                      (Allocated (Movements fifo_ledger 20 None None))"
  have len: "(1::nat) < length ?lots" "(0::nat) < length ?lots"
    unfolding fifo_ledger_lots by simp_all
  from fifo_allocation [of 7 1 fifo_ledger 20 None None]
  have all: "\<forall>i < length ?lots.
            consumed_qty (?A ! i) =
              Some (if 70 \<le> sum_list (map Qty (take i ?lots)) then 0
                    else if 70 \<ge> sum_list (map Qty (take i ?lots)) + Qty (?lots ! i) then Qty (?lots ! i)
                    else 70 - sum_list (map Qty (take i ?lots)))
          \<and> remaining_qty (?A ! i) = map_option (\<lambda>x. Qty (?lots ! i) - x) (consumed_qty (?A ! i))"
    unfolding fifo_ledger_issues by blast
  from all len(2) have c0: "consumed_qty (?A ! 0) = Some 40"
    unfolding fifo_ledger_lots by (simp add: mk_movement_def)
  from all len(1) have c1: "consumed_qty (?A ! 1) = Some 30 \<and> remaining_qty (?A ! 1) = Some 30"
    unfolding fifo_ledger_lots by (simp add: mk_movement_def)
  from len(1) c0 c1 show ?thesis by blast
qed

section \<open>FIFO conservation\<close>

lemma sum_list_map_insort_key:
  fixes f :: "'a \<Rightarrow> real"
  shows "sum_list (map f (insort_key k x xs)) = f x + sum_list (map f xs)"
  by (induction xs) auto

lemma sum_list_map_sort_key:
  fixes f :: "'a \<Rightarrow> real"
  shows "sum_list (map f (sort_key k xs)) = sum_list (map f xs)"
  by (induction xs) (auto simp: sum_list_map_insort_key)

lemma window_sums_qty:
  "x \<in> set (window_sums prev ms) \<Longrightarrow> \<exists>m \<in> set ms. r_lot_qty x = Qty m"
  by (induction ms arbitrary: prev) auto

lemma sum_window_sums_qty:
  "sum_list (map r_lot_qty (window_sums prev ms)) = sum_list (map Qty ms)"
  by (induction ms arbitrary: prev) auto

lemma Totals_member:
  assumes "t \<in> set (Totals M)"
  shows "(t_CustomerID t, t_SKU_ID t) \<in> set (map (\<lambda>m. (CustomerID m, SKU_ID m)) M)
       \<and> total_receipts t =
           (\<Sum>m \<leftarrow> filter (\<lambda>m. CustomerID m = t_CustomerID t \<and> SKU_ID m = t_SKU_ID t) M.
               if Qty m > 0 then Qty m else 0)"
  using assms unfolding Totals_def by (auto simp: Let_def)

text \<open>What one allocated lot contributes: its live remainder plus its consumption.\<close>

lemma lot_conserved:
  assumes "q > 0"
  shows "(case map_option (\<lambda>x. q - x) (consumed_expr (Some ti) cp q) of
            Some rem \<Rightarrow> if rem > 0 then rem else 0 | None \<Rightarrow> 0)
         + coalesce (consumed_expr (Some ti) cp q) 0 = q"
  using assms by (auto simp: consumed_expr_Some coalesce_simps)

lemma sum_list_live:
  "sum_list (map ll_remaining_qty
     (concat (map (\<lambda>a. case remaining_qty a of
                         Some rem \<Rightarrow>
                           if rem > 0 then
                             [\<lparr>ll_CustomerID = a_CustomerID a, ll_SKU_ID = a_SKU_ID a,
                               ll_lot_date = a_lot_date a, ll_remaining_qty = rem,
                               ll_age_days = as_of - a_lot_date a\<rparr>]
                           else []
                       | None \<Rightarrow> []) A)))
   = sum_list (map (\<lambda>a. case remaining_qty a of
                           Some rem \<Rightarrow> if rem > 0 then rem else 0 | None \<Rightarrow> 0) A)"
  by (induction A) (auto split: option.splits)

lemma fifo_conservation_general:
  assumes t: "t \<in> set (Totals M)"
  shows "(\<Sum>l \<leftarrow> filter (\<lambda>l. ll_CustomerID l = t_CustomerID t \<and> ll_SKU_ID l = t_SKU_ID t)
                    (LiveLayers M as_of). ll_remaining_qty l)
       + (\<Sum>a \<leftarrow> filter (\<lambda>a. a_CustomerID a = t_CustomerID t \<and> a_SKU_ID a = t_SKU_ID t)
                    (Allocated M). coalesce (consumed_qty a) 0)
       = total_receipts t"
proof -
  let ?c = "t_CustomerID t" and ?s = "t_SKU_ID t"
  let ?lots = "sort_key (\<lambda>m. (DocDate m, LedgerID m))
               (filter (\<lambda>m. CustomerID m = ?c \<and> SKU_ID m = ?s) (filter (\<lambda>m. Qty m > 0) M))"
  let ?ti = "\<Sum>m \<leftarrow> filter (\<lambda>m. CustomerID m = ?c \<and> SKU_ID m = ?s) M.
                          if Qty m < 0 then - Qty m else 0"
  let ?rs = "window_sums None ?lots"
  let ?live = "\<lambda>a. case remaining_qty a of
                           Some rem \<Rightarrow> if rem > 0 then rem else (0::real) | None \<Rightarrow> 0"
  have pos: "r_lot_qty r > 0" if "r \<in> set ?rs" for r
  proof -
    from window_sums_qty [OF that] obtain m where "m \<in> set ?lots" "r_lot_qty r = Qty m" by blast
    then show ?thesis by auto
  qed
  have "(\<Sum>l \<leftarrow> filter (\<lambda>l. ll_CustomerID l = ?c \<and> ll_SKU_ID l = ?s) (LiveLayers M as_of).
            ll_remaining_qty l)
       + (\<Sum>a \<leftarrow> filter (\<lambda>a. a_CustomerID a = ?c \<and> a_SKU_ID a = ?s) (Allocated M).
            coalesce (consumed_qty a) 0)
      = sum_list (map (\<lambda>r. ?live (Allocated_of r (Some ?ti))
                          + coalesce (consumed_qty (Allocated_of r (Some ?ti))) 0) ?rs)"
    unfolding LiveLayers_lookup sum_list_live Allocated_lookup
    by (simp add: sum_list_addf o_def del: filter_filter)
  also have "\<dots> = sum_list (map r_lot_qty ?rs)"
  proof (rule arg_cong [where f = sum_list], rule map_cong [OF refl])
    fix r assume "r \<in> set ?rs"
    from lot_conserved [OF pos [OF this]]
    show "?live (Allocated_of r (Some ?ti)) + coalesce (consumed_qty (Allocated_of r (Some ?ti))) 0
            = r_lot_qty r"
      by (simp add: Allocated_of_def)
  qed
  also have "\<dots> = sum_list (map Qty (filter (\<lambda>m. CustomerID m = ?c \<and> SKU_ID m = ?s)
                                          (filter (\<lambda>m. Qty m > 0) M)))"
    unfolding sum_window_sums_qty sum_list_map_sort_key ..
  also have "\<dots> = (\<Sum>m \<leftarrow> filter (\<lambda>m. CustomerID m = ?c \<and> SKU_ID m = ?s) M.
               if Qty m > 0 then Qty m else 0)"
  proof -
    have "filter (\<lambda>m. CustomerID m = ?c \<and> SKU_ID m = ?s) (filter (\<lambda>m. Qty m > 0) M)
        = filter (\<lambda>m. Qty m > 0) (filter (\<lambda>m. CustomerID m = ?c \<and> SKU_ID m = ?s) M)"
      unfolding filter_filter by (rule filter_cong) auto
    then show ?thesis
      by (simp only: sum_list_map_filter')
  qed
  also have "\<dots> = total_receipts t"
    using Totals_member [OF t] by simp
  finally show ?thesis .
qed

text \<open>
  Claim C2.  For every (customer, SKU) pair of the window, the remaining quantities of
  its live layers plus the consumed quantities of all its lots add up to the pair's
  \<open>total_receipts\<close>; the consumed quantity of a lot is never \<open>NULL\<close>.
\<close>

theorem fifo_conservation:
  assumes "t \<in> set (Totals (Movements L as_of customer_id sku_id))"
  shows "(\<Sum>l \<leftarrow> filter (\<lambda>l. ll_CustomerID l = t_CustomerID t \<and> ll_SKU_ID l = t_SKU_ID t)
                    (LiveLayers (Movements L as_of customer_id sku_id) as_of). ll_remaining_qty l)
       + (\<Sum>a \<leftarrow> filter (\<lambda>a. a_CustomerID a = t_CustomerID t \<and> a_SKU_ID a = t_SKU_ID t)
                    (Allocated (Movements L as_of customer_id sku_id)). coalesce (consumed_qty a) 0)
       = total_receipts t
       \<and> (\<forall>a \<in> set (Allocated (Movements L as_of customer_id sku_id)). consumed_qty a \<noteq> None)"
proof -
  let ?M = "Movements L as_of customer_id sku_id"
  have "consumed_qty a \<noteq> None" if a: "a \<in> set (Allocated ?M)" for a
  proof -
    from a have "a \<in> set (filter (\<lambda>x. a_CustomerID x = a_CustomerID a \<and> a_SKU_ID x = a_SKU_ID a)
                             (Allocated ?M))" by simp
    then obtain r ti where "a = Allocated_of r (Some ti)"
      unfolding Allocated_lookup by auto
    then have "consumed_qty a = consumed_expr (Some ti) (r_cum_in_prev r) (r_lot_qty r)"
      by (simp add: Allocated_of_def)
    then show ?thesis by (simp add: consumed_expr_Some)
  qed
  with fifo_conservation_general [OF assms, of as_of] show ?thesis by blast
qed


text \<open>The scenario: 30 remain, 40 + 30 are consumed, 100 were received.\<close>

theorem fifo_conservation_witness:
  "\<lparr>t_CustomerID = 7, t_SKU_ID = 1, total_issues = 70, total_receipts = 100,
     last_movement_date = Some 12, last_sellout_date = Some 12\<rparr>
     \<in> set (Totals (Movements fifo_ledger 20 None None))
   \<and> (\<Sum>l \<leftarrow> filter (\<lambda>l. ll_CustomerID l = 7 \<and> ll_SKU_ID l = 1)
                    (LiveLayers (Movements fifo_ledger 20 None None) 20). ll_remaining_qty l)
       + (\<Sum>a \<leftarrow> filter (\<lambda>a. a_CustomerID a = 7 \<and> a_SKU_ID a = 1)
                    (Allocated (Movements fifo_ledger 20 None None)). coalesce (consumed_qty a) 0)
       = 100"
proof -
  have t: "\<lparr>t_CustomerID = 7, t_SKU_ID = 1, total_issues = 70, total_receipts = 100,
     last_movement_date = Some 12, last_sellout_date = Some 12\<rparr>
     \<in> set (Totals (Movements fifo_ledger 20 None None))"
    by (simp add: fifo_eval_defs)
  from fifo_conservation [OF t] t show ?thesis by simp
qed

section \<open>FIFO anchor exclusion\<close>

lemma sql_min_Some_nonempty: "sql_min xs = Some m \<Longrightarrow> xs \<noteq> []"
  by (cases xs) auto

lemma Movements_customer_has_adjust:
  assumes "m \<in> set (Movements L as_of customer_id sku_id)"
  shows "\<exists>e \<in> set L. CustomerID e = CustomerID m \<and> MovementType e = ''ADJUST'' \<and> DocDate e \<le> as_of"
proof -
  from assms obtain adj where
    "sql_min (map DocDate (filter (\<lambda>a. MovementType a = ''ADJUST'' \<and> DocDate a \<le> as_of
                                           \<and> CustomerID a = CustomerID m) L)) = Some adj"
    unfolding Movements_eq_filter by auto
  from sql_min_Some_nonempty [OF this]
  have "filter (\<lambda>a. MovementType a = ''ADJUST'' \<and> DocDate a \<le> as_of
                                           \<and> CustomerID a = CustomerID m) L \<noteq> []" by simp
  then show ?thesis unfolding filter_empty_conv by auto
qed

lemma Allocated_member:
  assumes "a \<in> set (Allocated M)"
  shows "\<exists>m \<in> set M. CustomerID m = a_CustomerID a \<and> SKU_ID m = a_SKU_ID a"
proof -
  from assms have "a \<in> set (filter (\<lambda>x. a_CustomerID x = a_CustomerID a \<and> a_SKU_ID x = a_SKU_ID a)
                             (Allocated M))" by simp
  then obtain r where r: "r \<in> set (window_sums None
            (sort_key (\<lambda>m. (DocDate m, LedgerID m))
               (filter (\<lambda>m. CustomerID m = a_CustomerID a \<and> SKU_ID m = a_SKU_ID a)
                  (filter (\<lambda>m. Qty m > 0) M))))"
    unfolding Allocated_lookup by auto
  from window_sums_pair [OF r] show ?thesis by auto
qed

lemma LiveLayers_member:
  assumes "l \<in> set (LiveLayers M as_of)"
  shows "\<exists>m \<in> set M. CustomerID m = ll_CustomerID l \<and> SKU_ID m = ll_SKU_ID l"
proof -
  from assms obtain a where "a \<in> set (Allocated M)"
    "a_CustomerID a = ll_CustomerID l" "a_SKU_ID a = ll_SKU_ID l"
    unfolding LiveLayers_def by (auto split: option.splits if_splits)
  with Allocated_member [of a M] show ?thesis by auto
qed

lemma Buckets_member:
  assumes "b \<in> set (Buckets M as_of min_age max_age)"
  shows "\<exists>l \<in> set (LiveLayers M as_of). ll_CustomerID l = b_CustomerID b \<and> ll_SKU_ID l = b_SKU_ID b"
  using assms unfolding Buckets_def LiveLayersFiltered_def by (auto simp: Let_def)

text \<open>
  Claim C6, as amended.  A customer with no ADJUST row dated on or before the reporting
  date, for any SKU, has no row in either result of the aging report: no bucket row and
  no live-layer row, for any of its SKUs.
\<close>

theorem fifo_anchor_exclusion:
  assumes no_adjust: "\<not> (\<exists>e \<in> set L. CustomerID e = c \<and> MovementType e = ''ADJUST'' \<and> DocDate e \<le> as_of)"
  shows "(\<forall>b \<in> set (bucket_stmt visible L as_of customer_id sku_id min_age max_age only_positive_soh).
            b_CustomerID b \<noteq> c)
       \<and> (\<forall>l \<in> set (layer_stmt visible L as_of customer_id sku_id). ll_CustomerID l \<noteq> c)"
proof -
  let ?M = "Movements L as_of customer_id sku_id"
  have live: "ll_CustomerID l \<noteq> c" if "l \<in> set (LiveLayers ?M as_of)" for l
  proof
    assume eq: "ll_CustomerID l = c"
    from LiveLayers_member [OF that] obtain m where "m \<in> set ?M" "CustomerID m = c"
      using eq by auto
    with Movements_customer_has_adjust [of m L as_of customer_id sku_id] no_adjust
    show False by auto
  qed
  have 1: "\<forall>b \<in> set (bucket_stmt visible L as_of customer_id sku_id min_age max_age only_positive_soh).
            b_CustomerID b \<noteq> c"
  proof
    fix b assume "b \<in> set (bucket_stmt visible L as_of customer_id sku_id min_age max_age only_positive_soh)"
    then have "b \<in> set (Buckets ?M as_of min_age max_age)"
      unfolding bucket_stmt_def by simp
    from Buckets_member [OF this] live show "b_CustomerID b \<noteq> c" by auto
  qed
  have 2: "\<forall>l \<in> set (layer_stmt visible L as_of customer_id sku_id). ll_CustomerID l \<noteq> c"
    unfolding layer_stmt_def using live by simp
  from 1 2 show ?thesis ..
qed

text \<open>The claim as stated fails: SKU 2 of customer 7 has no ADJUST row of its own, and
  the customer's ADJUST row for SKU 1 brings the pair into both results.\<close>

theorem fifo_pair_without_adjust_counterexample:
  "filter (\<lambda>e. CustomerID e = 7 \<and> SKU_ID e = 2 \<and> MovementType e = ''ADJUST'') fifo_ledger = []
   \<and> map (\<lambda>l. (ll_CustomerID l, ll_SKU_ID l, ll_remaining_qty l))
         (layer_stmt (\<lambda>c s. True) fifo_ledger 20 None None) = [(7, 1, 30), (7, 2, 5)]
   \<and> map (\<lambda>b. (b_CustomerID b, b_SKU_ID b, soh_qty b))
         (bucket_stmt (\<lambda>c s. True) fifo_ledger 20 None None None None False) = [(7, 1, 30), (7, 2, 5)]"
  by (simp add: fifo_eval_defs)

text \<open>Customer 8 has no ADJUST row, and its receipt is in neither result.\<close>

theorem fifo_anchor_exclusion_witness:
  "filter (\<lambda>e. CustomerID e = 8 \<and> MovementType e = ''ADJUST'' \<and> DocDate e \<le> 20) fifo_ledger = []
   \<and> filter (\<lambda>b. b_CustomerID b = 8)
        (bucket_stmt (\<lambda>c s. True) fifo_ledger 20 None None None None False) = []
   \<and> filter (\<lambda>l. ll_CustomerID l = 8) (layer_stmt (\<lambda>c s. True) fifo_ledger 20 None None) = []"
proof -
  have h: "\<not> (\<exists>e \<in> set fifo_ledger. CustomerID e = 8 \<and> MovementType e = ''ADJUST'' \<and> DocDate e \<le> 20)"
    by (simp add: fifo_ledger_def mk_movement_def)
  have e: "filter (\<lambda>e. CustomerID e = 8 \<and> MovementType e = ''ADJUST'' \<and> DocDate e \<le> 20) fifo_ledger = []"
    by (simp add: fifo_ledger_def mk_movement_def)
  from fifo_anchor_exclusion [OF h, of "\<lambda>c s. True" None None None None False] e
  show ?thesis by (simp add: filter_empty_conv)
qed

section \<open>Negative-balance preview\<close>




















section \<open>Posting a sell-out upload\<close>

lemma find_upload_id:
  "find (\<lambda>u. up_UploadID u = i) us = Some u \<Longrightarrow> up_UploadID u = i \<and> u \<in> set us"
  by (auto simp: find_Some_iff)

lemma map_same_image: "(\<And>x. f (g x) = f x) \<Longrightarrow> map f (map g xs) = map f xs"
  by (induction xs) auto

lemma db_uploads_claimed:
  "db_uploads (claimed db upload_id) =
     map (\<lambda>x. if up_UploadID x = upload_id \<and> up_Status x = ''Draft''
               then x\<lparr>up_Status := ''Posting''\<rparr> else x) (db_uploads db)"
  by (simp add: claimed_def)

lemma claimed_no_draft:
  "\<not> (\<exists>x \<in> set (db_uploads (claimed db upload_id)). up_UploadID x = upload_id \<and> up_Status x = ''Draft'')"
proof
  assume "\<exists>x \<in> set (db_uploads (claimed db upload_id)). up_UploadID x = upload_id \<and> up_Status x = ''Draft''"
  then obtain x where x: "x \<in> set (db_uploads (claimed db upload_id))"
    and px: "up_UploadID x = upload_id" "up_Status x = ''Draft''" by blast
  from x obtain y where y: "x = (if up_UploadID y = upload_id \<and> up_Status y = ''Draft''
               then y\<lparr>up_Status := ''Posting''\<rparr> else y)"
    unfolding db_uploads_claimed by (auto simp only: set_map image_iff)
  show False
  proof (cases "up_UploadID y = upload_id \<and> up_Status y = ''Draft''")
    case True
    with y have "up_Status x = ''Posting''" by simp
    with px show False by simp
  next
    case False
    with y have "x = y" by simp
    with False px show False by simp
  qed
qed

lemma claimed_same:
  assumes "\<not> (\<exists>x \<in> set (db_uploads db). up_UploadID x = upload_id \<and> up_Status x = ''Draft'')"
  shows "claimed db upload_id = db"
proof -
  have "map (\<lambda>x. if up_UploadID x = upload_id \<and> up_Status x = ''Draft''
                               then x\<lparr>up_Status := ''Posting''\<rparr> else x) (db_uploads db) = db_uploads db"
  proof (rule map_idI)
    fix x assume "x \<in> set (db_uploads db)"
    with assms have "\<not> (up_UploadID x = upload_id \<and> up_Status x = ''Draft'')" by blast
    then show "(if up_UploadID x = upload_id \<and> up_Status x = ''Draft''
                               then x\<lparr>up_Status := ''Posting''\<rparr> else x) = x" by simp
  qed
  then show ?thesis by (simp add: claimed_def)
qed

lemma approve_one_cases:
  assumes f: "find (\<lambda>u. up_UploadID u = upload_id) (db_uploads db) = Some u"
  shows "approve_one db upload_id actor comment =
     (if length (filter (\<lambda>x. up_UploadID x = upload_id \<and> up_Status x = ''Draft'') (db_uploads db)) \<noteq> 1
      then (Skipped (up_Status u), claimed db upload_id)
      else (case post_sellout_running (claimed db upload_id) u actor comment of
              Inl e \<Rightarrow> (Failed e, db)
            | Inr db2 \<Rightarrow> if ledger_unique (db_ledger db2) then (Posted, db2)
                         else (Failed IntegrityError, db)))"
proof -
  from find_upload_id [OF f] have id: "up_UploadID u = upload_id" by simp
  show ?thesis
    unfolding approve_one_def f option.case Let_def id claimed_def ..
qed

lemma approve_one_not_found:
  "find (\<lambda>u. up_UploadID u = upload_id) (db_uploads db) = None \<Longrightarrow>
     approve_one db upload_id actor comment = (Failed NotFound, db)"
  by (simp add: approve_one_def)

lemma post_sellout_running_uploads:
  assumes "post_sellout_running d u actor comment = Inr d2"
  shows "map up_UploadID (db_uploads d2) = map up_UploadID (db_uploads d)
       \<and> (\<forall>x \<in> set (db_uploads d2). up_UploadID x = up_UploadID u \<longrightarrow> up_Status x = ''Posted'')"
proof -
  from assms have d2: "db_uploads d2 =
      map (\<lambda>x. if up_UploadID x = up_UploadID u
                then x\<lparr>up_Status := ''Posted'', up_ApprovedBy := Some (actor_or actor ''approver'')\<rparr>
                else x) (db_uploads d)"
    by (auto simp: post_sellout_running_def Let_def split: if_splits)
  have 1: "map up_UploadID (db_uploads d2) = map up_UploadID (db_uploads d)"
    unfolding d2 by (rule map_same_image) simp
  have 2: "\<forall>x \<in> set (db_uploads d2). up_UploadID x = up_UploadID u \<longrightarrow> up_Status x = ''Posted''"
    unfolding d2 by auto
  from 1 2 show ?thesis ..
qed

lemma claimed_uploads: "map up_UploadID (db_uploads (claimed db i)) = map up_UploadID (db_uploads db)"
  unfolding claimed_def by (simp del: map_map) (rule map_same_image, simp)

lemma approve_one_no_draft:
  assumes nd: "\<not> (\<exists>x \<in> set (db_uploads db). up_UploadID x = upload_id \<and> up_Status x = ''Draft'')"
  shows "snd (approve_one db upload_id actor comment) = db
       \<and> fst (approve_one db upload_id actor comment) \<noteq> Posted
       \<and> (upload_id \<in> set (map up_UploadID (db_uploads db))
            \<longrightarrow> (\<exists>s. fst (approve_one db upload_id actor comment) = Skipped s))"
proof (cases "find (\<lambda>u. up_UploadID u = upload_id) (db_uploads db)")
  case None
  then have "upload_id \<notin> set (map up_UploadID (db_uploads db))"
    by (auto simp: find_None_iff)
  with approve_one_not_found [OF None] show ?thesis by simp
next
  case (Some u)
  from nd have none: "filter (\<lambda>x. up_UploadID x = upload_id \<and> up_Status x = ''Draft'') (db_uploads db) = []"
    by (auto simp: filter_empty_conv)
  show ?thesis
    unfolding approve_one_cases [OF Some] none claimed_same [OF nd] by simp
qed

lemma approve_one_Posted:
  assumes P: "fst (approve_one db upload_id actor comment) = Posted"
  shows "length (filter (\<lambda>x. up_UploadID x = upload_id \<and> up_Status x = ''Draft'') (db_uploads db)) = 1
       \<and> \<not> (\<exists>x \<in> set (db_uploads (snd (approve_one db upload_id actor comment))).
               up_UploadID x = upload_id \<and> up_Status x = ''Draft'')
       \<and> upload_id \<in> set (map up_UploadID (db_uploads (snd (approve_one db upload_id actor comment))))"
proof (cases "find (\<lambda>u. up_UploadID u = upload_id) (db_uploads db)")
  case None
  with P show ?thesis by (simp add: approve_one_not_found)
next
  case (Some u)
  from find_upload_id [OF Some] have id: "up_UploadID u = upload_id" and mem: "u \<in> set (db_uploads db)"
    by simp_all
  note ac = approve_one_cases [OF Some, of actor comment]
  have aff: "length (filter (\<lambda>x. up_UploadID x = upload_id \<and> up_Status x = ''Draft'') (db_uploads db)) = 1"
  proof (rule ccontr)
    assume "\<not> ?thesis"
    with ac have "fst (approve_one db upload_id actor comment) = Skipped (up_Status u)" by simp
    with P show False by simp
  qed
  show ?thesis
  proof (cases "post_sellout_running (claimed db upload_id) u actor comment")
    case (Inl e)
    with ac aff have "fst (approve_one db upload_id actor comment) = Failed e" by simp
    with P show ?thesis by simp
  next
    case (Inr db2)
    show ?thesis
    proof (cases "ledger_unique (db_ledger db2)")
      case False
      with ac aff Inr have "fst (approve_one db upload_id actor comment) = Failed IntegrityError" by simp
      with P show ?thesis by simp
    next
      case True
      with ac aff Inr have res: "snd (approve_one db upload_id actor comment) = db2" by simp
      from post_sellout_running_uploads [OF Inr]
      have ids: "map up_UploadID (db_uploads db2) = map up_UploadID (db_uploads db)"
        and posted: "\<forall>x \<in> set (db_uploads db2). up_UploadID x = upload_id \<longrightarrow> up_Status x = ''Posted''"
        unfolding claimed_uploads id by simp_all
      from mem id have "upload_id \<in> set (map up_UploadID (db_uploads db))" by force
      with ids have 3: "upload_id \<in> set (map up_UploadID (db_uploads db2))" by simp
      from posted have 2: "\<not> (\<exists>x \<in> set (db_uploads db2). up_UploadID x = upload_id \<and> up_Status x = ''Draft'')"
        by auto
      from aff 2 3 show ?thesis unfolding res by blast
    qed
  qed
qed

lemma approve_one_other:
  assumes nP: "fst (approve_one db upload_id actor comment) \<noteq> Posted"
  shows "snd (approve_one db upload_id actor comment) = db
       \<or> snd (approve_one db upload_id actor comment) = claimed db upload_id"
proof (cases "find (\<lambda>u. up_UploadID u = upload_id) (db_uploads db)")
  case None
  then show ?thesis by (simp add: approve_one_not_found)
next
  case (Some u)
  note ac = approve_one_cases [OF Some, of actor comment]
  show ?thesis
  proof (cases "length (filter (\<lambda>x. up_UploadID x = upload_id \<and> up_Status x = ''Draft'') (db_uploads db)) = 1")
    case False
    with ac show ?thesis by simp
  next
    case aff: True
    show ?thesis
    proof (cases "post_sellout_running (claimed db upload_id) u actor comment")
      case (Inl e)
      with ac aff show ?thesis by simp
    next
      case (Inr db2)
      with ac aff nP show ?thesis by (cases "ledger_unique (db_ledger db2)") simp_all
    qed
  qed
qed


lemma approve_one_twice:
  "snd (approve_one (snd (approve_one db upload_id actor comment)) upload_id actor comment)
     = snd (approve_one db upload_id actor comment)"
proof (cases "fst (approve_one db upload_id actor comment) = Posted")
  case True
  from approve_one_Posted [OF True]
  have "\<not> (\<exists>x \<in> set (db_uploads (snd (approve_one db upload_id actor comment))).
               up_UploadID x = upload_id \<and> up_Status x = ''Draft'')" by blast
  from approve_one_no_draft [OF this] show ?thesis by blast
next
  case False
  from approve_one_other [OF False]
  consider "snd (approve_one db upload_id actor comment) = db"
    | "snd (approve_one db upload_id actor comment) = claimed db upload_id" by blast
  then show ?thesis
  proof cases
    case 1
    then show ?thesis by simp
  next
    case 2
    from approve_one_no_draft [OF claimed_no_draft, of db upload_id actor comment]
    show ?thesis unfolding 2 by blast
  qed
qed

text \<open>
  Claim C7.  Each approval attempt is one transaction.  An attempt on an upload with no
  \<open>Draft\<close> row changes nothing (no ledger row is written) and is not a posting; an
  attempt posts only when the claim \<open>UPDATE\<close> from \<open>Draft\<close> to \<open>Posting\<close> changed
  exactly one row; a second attempt leaves the state of the first unchanged, and after a
  posting it is skipped; and a request naming the upload twice leaves the same state as
  a request naming it once.
\<close>

theorem approve_idempotent:
  "(\<not> (\<exists>x \<in> set (db_uploads db). up_UploadID x = upload_id \<and> up_Status x = ''Draft'')
      \<longrightarrow> snd (approve_one db upload_id actor comment) = db
          \<and> fst (approve_one db upload_id actor comment) \<noteq> Posted)
   \<and> (fst (approve_one db upload_id actor comment) = Posted
      \<longrightarrow> length (filter (\<lambda>x. up_UploadID x = upload_id \<and> up_Status x = ''Draft'') (db_uploads db)) = 1)
   \<and> snd (approve_one (snd (approve_one db upload_id actor comment)) upload_id actor comment)
       = snd (approve_one db upload_id actor comment)
   \<and> (fst (approve_one db upload_id actor comment) = Posted
      \<longrightarrow> (\<exists>s. fst (approve_one (snd (approve_one db upload_id actor comment)) upload_id actor comment)
                 = Skipped s))
   \<and> snd (approve_uploads db [upload_id, upload_id] actor comment)
       = snd (approve_uploads db [upload_id] actor comment)"
proof -
  let ?r = "approve_one db upload_id actor comment"
  have 1: "\<not> (\<exists>x \<in> set (db_uploads db). up_UploadID x = upload_id \<and> up_Status x = ''Draft'')
      \<longrightarrow> snd ?r = db \<and> fst ?r \<noteq> Posted"
    using approve_one_no_draft [of db upload_id actor comment] by blast
  have 2: "fst ?r = Posted
      \<longrightarrow> length (filter (\<lambda>x. up_UploadID x = upload_id \<and> up_Status x = ''Draft'') (db_uploads db)) = 1"
    using approve_one_Posted [of db upload_id actor comment] by blast
  have 3: "snd (approve_one (snd ?r) upload_id actor comment) = snd ?r"
    by (rule approve_one_twice)
  have 4: "fst ?r = Posted \<longrightarrow> (\<exists>s. fst (approve_one (snd ?r) upload_id actor comment) = Skipped s)"
  proof
    assume P: "fst ?r = Posted"
    from approve_one_Posted [OF P]
    have nd: "\<not> (\<exists>x \<in> set (db_uploads (snd ?r)). up_UploadID x = upload_id \<and> up_Status x = ''Draft'')"
      and ex: "upload_id \<in> set (map up_UploadID (db_uploads (snd ?r)))"
      by blast+
    from approve_one_no_draft [OF nd, of actor comment] ex
    show "\<exists>s. fst (approve_one (snd ?r) upload_id actor comment) = Skipped s" by blast
  qed
  have 5: "snd (approve_uploads db [upload_id, upload_id] actor comment)
       = snd (approve_uploads db [upload_id] actor comment)"
    using approve_one_twice [of db upload_id "actor_or actor ''approver''" comment]
    by (simp add: split_def)
  show ?thesis by (rule conjI [OF 1 conjI [OF 2 conjI [OF 3 conjI [OF 4 5]]]])
qed

text \<open>The posting scenario: the first attempt posts the two lines, the second is
  skipped, and the ledger holds the two SELLOUT rows once.\<close>

lemmas posting_eval_defs =
  approve_one_def posting_db_def preview_upload_def preview_details_def post_sellout_running_def
  active_details_def ledger_unique_def ledger_key_def sellout_ledger_row_def next_ledger_id_def
  str_int_def digits.simps actor_or_def Let_def

lemma posting_db_Posted: "fst (approve_one posting_db 1 ''bob'' None) = Posted"
  by (simp add: posting_eval_defs)

theorem approve_idempotent_witness:
  "fst (approve_one posting_db 1 ''bob'' None) = Posted
   \<and> length (filter (\<lambda>x. up_UploadID x = 1 \<and> up_Status x = ''Draft'') (db_uploads posting_db)) = 1
   \<and> (\<exists>s. fst (approve_one (snd (approve_one posting_db 1 ''bob'' None)) 1 ''bob'' None) = Skipped s)
   \<and> map Qty (db_ledger (snd (approve_uploads posting_db [1, 1] ''bob'' None))) = [- 4, - 8]"
proof -
  note th = approve_idempotent [of posting_db 1 "''bob''" None]
  from th posting_db_Posted
  have a: "length (filter (\<lambda>x. up_UploadID x = 1 \<and> up_Status x = ''Draft'') (db_uploads posting_db)) = 1"
    by blast
  from th posting_db_Posted
  have b: "\<exists>s. fst (approve_one (snd (approve_one posting_db 1 ''bob'' None)) 1 ''bob'' None) = Skipped s"
    by blast
  from th have c: "snd (approve_uploads posting_db [1, 1] ''bob'' None)
                 = snd (approve_uploads posting_db [1] ''bob'' None)" by blast
  have d: "map Qty (db_ledger (snd (approve_uploads posting_db [1] ''bob'' None))) = [- 4, - 8]"
    by (simp add: posting_eval_defs split_def)
  from posting_db_Posted a b d show ?thesis unfolding c by blast
qed

section \<open>The sign invariant of the ledger: the writers\<close>

lemma add_rows_append:
  "\<exists>new. add_rows L es = L @ new \<and> list_all2 (\<lambda>n e. \<exists>i. n = e\<lparr>LedgerID := i\<rparr>) new es"
proof (induction es arbitrary: L)
  case Nil
  show ?case by simp
next
  case (Cons e es)
  let ?e = "e\<lparr>LedgerID := next_ledger_id L\<rparr>"
  from Cons [of "L @ [?e]"]
  obtain new where n: "add_rows (L @ [?e]) es = (L @ [?e]) @ new"
    and a: "list_all2 (\<lambda>n e. \<exists>i. n = e\<lparr>LedgerID := i\<rparr>) new es" by blast
  from n have 1: "add_rows L (e # es) = L @ (?e # new)" by simp
  have "\<exists>i. ?e = e\<lparr>LedgerID := i\<rparr>" by blast
  with a have 2: "list_all2 (\<lambda>n e. \<exists>i. n = e\<lparr>LedgerID := i\<rparr>) (?e # new) (e # es)"
    by (simp only: list_all2_Cons simp_thms)
  from 1 2 show ?case by blast
qed

lemma list_all2_set1: "list_all2 P xs ys \<Longrightarrow> \<forall>x \<in> set xs. \<exists>y \<in> set ys. P x y"
  by (induction rule: list_all2_induct) auto

lemma list_all2_map_eq: "list_all2 P xs ys \<Longrightarrow> (\<And>x y. P x y \<Longrightarrow> f x = f y) \<Longrightarrow> map f xs = map f ys"
  by (induction rule: list_all2_induct) auto

lemma new_rows_fields:
  assumes "list_all2 (\<lambda>n e. \<exists>i. n = e\<lparr>LedgerID := i\<rparr>) new es"
  shows "map Qty new = map Qty es" and "map MovementType new = map MovementType es"
    and "map MovementSubType new = map MovementSubType es"
proof -
  show "map Qty new = map Qty es"
    by (rule list_all2_map_eq [OF assms]) auto
  show "map MovementType new = map MovementType es"
    by (rule list_all2_map_eq [OF assms]) auto
  show "map MovementSubType new = map MovementSubType es"
    by (rule list_all2_map_eq [OF assms]) auto
qed

lemma upload_details_valid:
  assumes "upload_details today upload_id rows = Inr ds"
  shows "details_valid ds"
proof -
  from assms have e: "upload_validation_errors today rows = []"
    and ds: "ds = concat (map (\<lambda>r. case (fr_SKU_ID r, fr_SellOutQty r) of
                                     (Some sku_id, Some qty) \<Rightarrow>
                                       [\<lparr>so_UploadID = upload_id, so_SKU_ID = sku_id,
                                         so_RowNumber = fr_RowNumber r,
                                         so_DocumentDate = fr_DocumentDate r,
                                         so_SellOutQty = qty, so_IsActive = True\<rparr>]
                                   | _ \<Rightarrow> []) rows)"
    by (auto simp: upload_details_def Let_def split: if_splits)
  from e have neg: "filter (\<lambda>r. case fr_SellOutQty r of Some q \<Rightarrow> q < 0 | None \<Rightarrow> False) rows = []"
    by (simp add: upload_validation_errors_def)
  show ?thesis
    unfolding details_valid_def
  proof
    fix d assume "d \<in> set ds"
    then obtain r where r: "r \<in> set rows"
      and d: "d \<in> set (case (fr_SKU_ID r, fr_SellOutQty r) of
                                     (Some sku_id, Some qty) \<Rightarrow>
                                       [\<lparr>so_UploadID = upload_id, so_SKU_ID = sku_id,
                                         so_RowNumber = fr_RowNumber r,
                                         so_DocumentDate = fr_DocumentDate r,
                                         so_SellOutQty = qty, so_IsActive = True\<rparr>]
                                   | _ \<Rightarrow> [])"
      unfolding ds by auto
    from neg r have "\<not> (case fr_SellOutQty r of Some q \<Rightarrow> q < 0 | None \<Rightarrow> False)"
      by (simp add: filter_empty_conv)
    with d show "0 \<le> so_SellOutQty d" by (auto split: option.splits)
  qed
qed

lemma set_active_details: "set (active_details SO upload) \<subseteq> set SO"
  by (auto simp: active_details_def)

lemma post_sellout_running_ledger:
  assumes "post_sellout_running db upload actor comment = Inr db'"
  shows "db_ledger db' = add_rows (db_ledger db)
           (map (sellout_ledger_row upload) (active_details (db_details db) upload))"
    and "db_details db' = db_details db"
  using assms by (auto simp: post_sellout_running_def Let_def split: if_splits)

lemma ledger_signs_ok_append:
  "ledger_signs_ok (L @ new) = (ledger_signs_ok L \<and> ledger_signs_ok new)"
  by (auto simp: ledger_signs_ok_def)

lemma post_sellout_running_signs:
  assumes p: "post_sellout_running db upload actor comment = Inr db'"
    and v: "details_valid (db_details db)"
  shows "\<exists>new. db_ledger db' = db_ledger db @ new
           \<and> map MovementType new = map (\<lambda>d. ''SELLOUT'') (active_details (db_details db) upload)
           \<and> map Qty new = map (\<lambda>d. - \<bar>so_SellOutQty d\<bar>) (active_details (db_details db) upload)
           \<and> ledger_signs_ok new"
proof -
  let ?ds = "active_details (db_details db) upload"
  from add_rows_append [of "db_ledger db" "map (sellout_ledger_row upload) ?ds"]
  obtain new where n: "add_rows (db_ledger db) (map (sellout_ledger_row upload) ?ds) = db_ledger db @ new"
    and a: "list_all2 (\<lambda>n e. \<exists>i. n = e\<lparr>LedgerID := i\<rparr>) new (map (sellout_ledger_row upload) ?ds)"
    by blast
  have 1: "db_ledger db' = db_ledger db @ new"
    unfolding post_sellout_running_ledger(1) [OF p] n ..
  have 2: "map MovementType new = map (\<lambda>d. ''SELLOUT'') ?ds"
    unfolding new_rows_fields(2) [OF a] by (simp add: sellout_ledger_row_def)
  have nonneg: "0 \<le> so_SellOutQty d" if "d \<in> set ?ds" for d
    using v that set_active_details [of "db_details db" upload]
    unfolding details_valid_def by blast
  have "map Qty new = map (\<lambda>d. - so_SellOutQty d) ?ds"
    unfolding new_rows_fields(1) [OF a] by (simp add: sellout_ledger_row_def)
  also have "\<dots> = map (\<lambda>d. - \<bar>so_SellOutQty d\<bar>) ?ds"
    by (rule map_cong [OF refl]) (simp add: nonneg)
  finally have 3: "map Qty new = map (\<lambda>d. - \<bar>so_SellOutQty d\<bar>) ?ds" .
  have 4: "ledger_signs_ok new"
    unfolding ledger_signs_ok_def
  proof
    fix e assume e: "e \<in> set new"
    then have "Qty e \<in> set (map Qty new)" by simp
    then have q: "Qty e \<le> 0" unfolding 3 by auto
    from e have "MovementType e \<in> set (map MovementType new)" by simp
    then have m: "MovementType e = ''SELLOUT''" unfolding 2 by auto
    from q m show "(MovementType e = ''SELLOUT'' \<longrightarrow> Qty e \<le> 0)
       \<and> (MovementType e = ''SELLIN'' \<and> MovementSubType e = Some ''RETURN'' \<longrightarrow> Qty e < 0)"
      by simp
  qed
  from 1 2 3 4 show ?thesis by blast
qed

lemma add_rows_single: "add_rows L [e] = L @ [e\<lparr>LedgerID := next_ledger_id L\<rparr>]"
  by simp

lemma ensure_ledger_for_si_row_rows:
  "\<exists>new. snd (ensure_ledger_for_si_row isoformat customers skus L si_row) = L @ new
         \<and> list_all (sellin_row_ok si_row) new"
proof -
  define cust_id where "cust_id = the (resolve_id customers (si_SoldToParty si_row))"
  define sku_id where "sku_id = the (resolve_id skus (Some (si_Article si_row)))"
  define idem where "idem = idempotency_key_for_si isoformat (si_Article si_row)
                         (str_or_empty (si_BillingDocument si_row)) (si_DocumentDate si_row)
                         (str_or_empty (si_SoldToParty si_row))"
  define ref_id where "ref_id = si_Article si_row @ ''/'' @ str_or_empty (si_BillingDocument si_row)"
  define qty where "qty = (case si_GrossSale si_row of Some g \<Rightarrow> g | None \<Rightarrow> 0)"
  define ret_q where "ret_q = (case si_ReturnQty si_row of Some q \<Rightarrow> q | None \<Rightarrow> 0)"
  define r1 where "r1 = (sellin_ledger_row cust_id sku_id si_row None qty ref_id idem)
                          \<lparr>LedgerID := next_ledger_id L\<rparr>"
  define post1 where "post1 = (qty > 0 \<and> find (\<lambda>e. IdempotencyKey e = Some idem) L = None)"
  define L1 where "L1 = (if post1 then L @ [r1] else L)"
  define r2 where "r2 = (sellin_ledger_row cust_id sku_id si_row (Some ''RETURN'')
                           (if ret_q < 0 then ret_q else - ret_q) (ref_id @ '':RET'') (idem @ '':RET''))
                          \<lparr>LedgerID := next_ledger_id L1\<rparr>"
  define post2 where "post2 = (ret_q \<noteq> 0 \<and> find (\<lambda>e. IdempotencyKey e = Some (idem @ '':RET'')) L1 = None)"
  have res: "snd (ensure_ledger_for_si_row isoformat customers skus L si_row)
           = (if \<not> truthy (resolve_id customers (si_SoldToParty si_row))
                 \<or> \<not> truthy (resolve_id skus (Some (si_Article si_row))) then L
              else if post2 then L1 @ [r2] else L1)"
    unfolding ensure_ledger_for_si_row_def Let_def add_rows_single
      cust_id_def [symmetric] sku_id_def [symmetric] idem_def [symmetric] ref_id_def [symmetric]
      qty_def [symmetric] ret_q_def [symmetric] post1_def [symmetric]
    unfolding r1_def [symmetric] L1_def [symmetric]
    unfolding post2_def [symmetric] r2_def [symmetric]
    by simp
  have ok1: "sellin_row_ok si_row r1" if "post1"
  proof -
    from that have "qty > 0" by (simp add: post1_def)
    then have "si_GrossSale si_row = Some qty"
      by (cases "si_GrossSale si_row") (simp_all add: qty_def)
    with \<open>qty > 0\<close> show ?thesis
      by (simp add: sellin_row_ok_def r1_def sellin_ledger_row_def)
  qed
  have ok2: "sellin_row_ok si_row r2" if "post2"
  proof -
    from that have nz: "ret_q \<noteq> 0" by (simp add: post2_def)
    then have s: "si_ReturnQty si_row = Some ret_q"
      by (cases "si_ReturnQty si_row") (simp_all add: ret_q_def)
    have q: "Qty r2 = - \<bar>ret_q\<bar>" by (simp add: r2_def sellin_ledger_row_def)
    with nz have "Qty r2 < 0" by simp
    with s q show ?thesis
      by (simp add: sellin_row_ok_def r2_def sellin_ledger_row_def)
  qed
  let ?new = "(if post1 then [r1] else []) @ (if post2 then [r2] else [])"
  have a: "(if post2 then L1 @ [r2] else L1) = L @ ?new" by (simp add: L1_def)
  have b: "list_all (sellin_row_ok si_row) ?new" using ok1 ok2 by simp
  show ?thesis
  proof (cases "\<not> truthy (resolve_id customers (si_SoldToParty si_row))
                 \<or> \<not> truthy (resolve_id skus (Some (si_Article si_row)))")
    case True
    then have "snd (ensure_ledger_for_si_row isoformat customers skus L si_row) = L @ []"
      unfolding res by simp
    moreover have "list_all (sellin_row_ok si_row) []" by simp
    ultimately show ?thesis by blast
  next
    case False
    then have "snd (ensure_ledger_for_si_row isoformat customers skus L si_row) = L @ ?new"
      unfolding res a [symmetric] by simp
    with b show ?thesis by blast
  qed
qed

lemma sellin_rows_signs: "list_all (sellin_row_ok si_row) new \<Longrightarrow> ledger_signs_ok new"
  by (auto simp: list_all_iff sellin_row_ok_def ledger_signs_ok_def)

lemma post_ledger_adjust_row:
  "\<exists>e. post_ledger_adjust L c s d new_qty old_qty h r mt = L @ [e]
       \<and> MovementType e = mt \<and> old_qty + Qty e = new_qty"
  by (simp add: post_ledger_adjust_def Let_def)


lemma post_ledger_adjust_signs:
  assumes "ledger_signs_ok L" and "mt \<in> {''ADJUST'', ''SUPERCEED''}"
  shows "ledger_signs_ok (post_ledger_adjust L c s d new_qty old_qty h r mt)"
proof -
  from post_ledger_adjust_row [of L c s d new_qty old_qty h r mt]
  obtain e where e: "post_ledger_adjust L c s d new_qty old_qty h r mt = L @ [e]"
    and m: "MovementType e = mt" by blast
  from assms(2) m have "MovementType e \<noteq> ''SELLOUT''" and "MovementType e \<noteq> ''SELLIN''"
    by auto
  then have "ledger_signs_ok [e]" by (simp add: ledger_signs_ok_def)
  with assms(1) show ?thesis unfolding e ledger_signs_ok_append by simp
qed

text \<open>
  Claim C9.  The ledger writers keep the sign convention.  An accepted sell-out upload
  holds no negative quantity; posting it appends one SELLOUT row per active line, with
  \<open>Qty = - \<bar>SellOutQty\<bar>\<close>, and leaves the lines as they are; the sell-in capture appends
  only SELLIN rows, a receipt with its positive \<open>GrossSale\<close> and a return with
  \<open>- \<bar>ReturnQty\<bar> < 0\<close>; an ADJUST (or SUPERCEED) row holds the signed difference between
  the new and the old snapshot quantity; and each of the three writers preserves
  \<open>ledger_signs_ok\<close>.
\<close>

theorem ledger_sign_invariant:
  "(upload_details today upload_id rows = Inr ds \<longrightarrow> details_valid ds)
   \<and> (post_sellout_running db upload actor comment = Inr db' \<and> details_valid (db_details db)
        \<longrightarrow> (\<exists>new. db_ledger db' = db_ledger db @ new
               \<and> map MovementType new = map (\<lambda>d. ''SELLOUT'') (active_details (db_details db) upload)
               \<and> map Qty new = map (\<lambda>d. - \<bar>so_SellOutQty d\<bar>) (active_details (db_details db) upload))
            \<and> db_details db' = db_details db
            \<and> (ledger_signs_ok (db_ledger db) \<longrightarrow> ledger_signs_ok (db_ledger db')))
   \<and> (\<exists>new. snd (ensure_ledger_for_si_row isoformat customers skus L si_row) = L @ new
            \<and> list_all (sellin_row_ok si_row) new)
   \<and> (ledger_signs_ok L
        \<longrightarrow> ledger_signs_ok (snd (ensure_ledger_for_si_row isoformat customers skus L si_row)))
   \<and> (\<exists>e. post_ledger_adjust L c s d new_qty old_qty h r mt = L @ [e]
          \<and> MovementType e = mt \<and> old_qty + Qty e = new_qty)
   \<and> (ledger_signs_ok L \<and> mt \<in> {''ADJUST'', ''SUPERCEED''}
        \<longrightarrow> ledger_signs_ok (post_ledger_adjust L c s d new_qty old_qty h r mt))"
proof -
  have 1: "upload_details today upload_id rows = Inr ds \<longrightarrow> details_valid ds"
    using upload_details_valid by blast
  have 2: "post_sellout_running db upload actor comment = Inr db' \<and> details_valid (db_details db)
        \<longrightarrow> (\<exists>new. db_ledger db' = db_ledger db @ new
               \<and> map MovementType new = map (\<lambda>d. ''SELLOUT'') (active_details (db_details db) upload)
               \<and> map Qty new = map (\<lambda>d. - \<bar>so_SellOutQty d\<bar>) (active_details (db_details db) upload))
            \<and> db_details db' = db_details db
            \<and> (ledger_signs_ok (db_ledger db) \<longrightarrow> ledger_signs_ok (db_ledger db'))"
  proof
    assume "post_sellout_running db upload actor comment = Inr db' \<and> details_valid (db_details db)"
    then have p: "post_sellout_running db upload actor comment = Inr db'"
      and v: "details_valid (db_details db)" by simp_all
    from post_sellout_running_signs [OF p v]
    obtain new where n: "db_ledger db' = db_ledger db @ new"
      and m: "map MovementType new = map (\<lambda>d. ''SELLOUT'') (active_details (db_details db) upload)"
      and q: "map Qty new = map (\<lambda>d. - \<bar>so_SellOutQty d\<bar>) (active_details (db_details db) upload)"
      and ok: "ledger_signs_ok new" by blast
    from n m q have a: "\<exists>new. db_ledger db' = db_ledger db @ new
               \<and> map MovementType new = map (\<lambda>d. ''SELLOUT'') (active_details (db_details db) upload)
               \<and> map Qty new = map (\<lambda>d. - \<bar>so_SellOutQty d\<bar>) (active_details (db_details db) upload)"
      by blast
    note b = post_sellout_running_ledger(2) [OF p]
    from ok have c: "ledger_signs_ok (db_ledger db) \<longrightarrow> ledger_signs_ok (db_ledger db')"
      unfolding n ledger_signs_ok_append by simp
    show "(\<exists>new. db_ledger db' = db_ledger db @ new
               \<and> map MovementType new = map (\<lambda>d. ''SELLOUT'') (active_details (db_details db) upload)
               \<and> map Qty new = map (\<lambda>d. - \<bar>so_SellOutQty d\<bar>) (active_details (db_details db) upload))
            \<and> db_details db' = db_details db
            \<and> (ledger_signs_ok (db_ledger db) \<longrightarrow> ledger_signs_ok (db_ledger db'))"
      by (rule conjI [OF a conjI [OF b c]])
  qed
  note 3 = ensure_ledger_for_si_row_rows [of isoformat customers skus L si_row]
  have 4: "ledger_signs_ok L
        \<longrightarrow> ledger_signs_ok (snd (ensure_ledger_for_si_row isoformat customers skus L si_row))"
  proof -
    from 3 obtain new
      where n: "snd (ensure_ledger_for_si_row isoformat customers skus L si_row) = L @ new"
        and ok: "list_all (sellin_row_ok si_row) new" by blast
    from sellin_rows_signs [OF ok] show ?thesis unfolding n ledger_signs_ok_append by simp
  qed
  note 5 = post_ledger_adjust_row [of L c s d new_qty old_qty h r mt]
  have 6: "ledger_signs_ok L \<and> mt \<in> {''ADJUST'', ''SUPERCEED''}
        \<longrightarrow> ledger_signs_ok (post_ledger_adjust L c s d new_qty old_qty h r mt)"
    using post_ledger_adjust_signs [of L mt c s d new_qty old_qty h r] by blast
  show ?thesis by (rule conjI [OF 1 conjI [OF 2 conjI [OF 3 conjI [OF 4 conjI [OF 5 6]]]]])
qed

text \<open>The scenario: the accepted file gives the two lines 4 and 8, posted as \<open>- 4\<close> and
  \<open>- 8\<close>; the sell-in row with a receipt of 50 and a return of 3 is captured as \<open>50\<close> and
  \<open>- 3\<close>; a snapshot correction from 10 to 7 is an ADJUST of \<open>- 3\<close>.\<close>

lemmas sellin_eval_defs =
  ensure_ledger_for_si_row_def sellin_example_def resolve_id_def truthy_def
  idempotency_key_for_si_def str_or_empty_def sellin_ledger_row_def next_ledger_id_def
  str_int_def digits.simps Let_def

theorem ledger_sign_invariant_witness:
  "upload_details 10 1 sellout_file_example = Inr (db_details posting_db)
   \<and> details_valid (db_details posting_db)
   \<and> (\<exists>db'. post_sellout_running posting_db preview_upload ''bob'' None = Inr db'
          \<and> map Qty (db_ledger db') = [- 4, - 8]
          \<and> ledger_signs_ok (db_ledger db'))
   \<and> map Qty (snd (ensure_ledger_for_si_row str_int [(7, ''ACME'')] [(1, ''A1'')] [] sellin_example))
       = [50, - 3]
   \<and> ledger_signs_ok
       (snd (ensure_ledger_for_si_row str_int [(7, ''ACME'')] [(1, ''A1'')] [] sellin_example))
   \<and> map Qty (post_ledger_adjust [] 7 1 5 7 10 1 1 ''ADJUST'') = [- 3]
   \<and> ledger_signs_ok (post_ledger_adjust [] 7 1 5 7 10 1 1 ''ADJUST'')"
proof -
  define db' where "db' = projr (post_sellout_running posting_db preview_upload ''bob'' None)"
  have p: "post_sellout_running posting_db preview_upload ''bob'' None = Inr db'"
    unfolding db'_def
    by (simp add: post_sellout_running_def posting_db_def preview_upload_def preview_details_def
        active_details_def Let_def)
  have e: "ledger_signs_ok []" by (simp add: ledger_signs_ok_def)
  have l0: "db_ledger posting_db = []" by (simp add: posting_db_def)
  note th1 = ledger_sign_invariant [of 10 1 sellout_file_example "db_details posting_db"
      posting_db preview_upload "''bob''" None db' str_int "[(7, ''ACME'')]" "[(1, ''A1'')]" "[]"
      sellin_example 7 1 5 7 10 1 1 "''ADJUST''"]
  have 1: "upload_details 10 1 sellout_file_example = Inr (db_details posting_db)"
    by (simp add: upload_details_def upload_validation_errors_def sellout_file_example_def
        posting_db_def preview_details_def Let_def)
  have 2: "details_valid (db_details posting_db)"
    by (rule mp [OF th1 [THEN conjunct1] 1])
  have e0: "ledger_signs_ok (db_ledger posting_db)" unfolding l0 by (rule e)
  note post = mp [OF th1 [THEN conjunct2, THEN conjunct1] conjI [OF p 2]]
  have ok: "ledger_signs_ok (db_ledger db')"
    by (rule mp [OF post [THEN conjunct2, THEN conjunct2] e0])
  have q: "map Qty (db_ledger db') = [- 4, - 8]"
    unfolding db'_def
    by (simp add: post_sellout_running_def posting_db_def preview_upload_def preview_details_def
        active_details_def sellout_ledger_row_def Let_def)
  have 3: "\<exists>db'. post_sellout_running posting_db preview_upload ''bob'' None = Inr db'
          \<and> map Qty (db_ledger db') = [- 4, - 8] \<and> ledger_signs_ok (db_ledger db')"
    by (rule exI [of _ db']) (rule conjI [OF p conjI [OF q ok]])
  have 4: "map Qty (snd (ensure_ledger_for_si_row str_int [(7, ''ACME'')] [(1, ''A1'')] [] sellin_example))
       = [50, - 3]"
    by (simp add: sellin_eval_defs)
  have 5: "ledger_signs_ok
       (snd (ensure_ledger_for_si_row str_int [(7, ''ACME'')] [(1, ''A1'')] [] sellin_example))"
    by (rule mp [OF th1 [THEN conjunct2, THEN conjunct2, THEN conjunct2, THEN conjunct1] e])
  have 6: "map Qty (post_ledger_adjust [] 7 1 5 7 10 1 1 ''ADJUST'') = [- 3]"
    by (simp add: post_ledger_adjust_def Let_def)
  have mt: "''ADJUST'' \<in> {''ADJUST'', ''SUPERCEED''}" by simp
  have 7: "ledger_signs_ok (post_ledger_adjust [] 7 1 5 7 10 1 1 ''ADJUST'')"
    by (rule mp [OF th1 [THEN conjunct2, THEN conjunct2, THEN conjunct2, THEN conjunct2,
                         THEN conjunct2] conjI [OF e mt]])
  show ?thesis by (rule conjI [OF 1 conjI [OF 2 conjI [OF 3 conjI [OF 4 conjI [OF 5 conjI [OF 6 7]]]]]])
qed

section \<open>Customer status recompute: the loop and its result\<close>

subsection \<open>The query\<close>

lemma last_dates_filter:
  "filter (\<lambda>r. fst r = cid) (last_dates mt L) =
     (if cid \<in> set (map CustomerID (filter (\<lambda>e. MovementType e = mt) L))
      then [(cid, last_doc_date mt L cid)] else [])"
proof -
  let ?rows = "filter (\<lambda>e. MovementType e = mt) L"
  let ?g = "\<lambda>cid. (cid, sql_max (map DocDate (filter (\<lambda>e. CustomerID e = cid) ?rows)))"
  have g: "?g cid = (cid, last_doc_date mt L cid)"
    by (simp add: last_doc_date_def)
  have "filter (\<lambda>r. fst r = cid) (last_dates mt L)
          = filter (\<lambda>r. fst r = cid) (map ?g (remdups (map CustomerID ?rows)))"
    by (simp add: last_dates_def Let_def)
  also have "\<dots> = map ?g (filter (\<lambda>k. k = cid) (remdups (map CustomerID ?rows)))"
    by (simp add: filter_map o_def)
  also have "\<dots> = (if cid \<in> set (map CustomerID ?rows) then [?g cid] else [])"
    unfolding filter_eq_remdups by simp
  finally show ?thesis unfolding g .
qed

lemma outer_dates_last: "outer_dates (last_dates mt L) cid = [last_doc_date mt L cid]"
proof (cases "cid \<in> set (map CustomerID (filter (\<lambda>e. MovementType e = mt) L))")
  case True
  then show ?thesis unfolding outer_dates_def last_dates_filter by simp
next
  case False
  then have "filter (\<lambda>e. MovementType e = mt \<and> CustomerID e = cid) L = []"
    by (auto simp: filter_empty_conv)
  then have "last_doc_date mt L cid = None" by (simp add: last_doc_date_def)
  with False show ?thesis unfolding outer_dates_def last_dates_filter by simp
qed

lemma status_rows_eq:
  "status_rows customers L =
     map (\<lambda>c. (cu_CustomerID c, cu_StatusID c, last_doc_date ''SELLIN'' L (cu_CustomerID c),
                last_doc_date ''SELLOUT'' L (cu_CustomerID c))) customers"
  unfolding status_rows_def outer_dates_last by (induction customers) simp_all

subsection \<open>The tags\<close>

lemma fold_merge_set:
  "set (fold (\<lambda>sid T'. if (cid, sid) \<in> set T' then T' else T' @ [(cid, sid)]) want T1)
     = set T1 \<union> (\<lambda>s. (cid, s)) ` set want"
proof (induction want arbitrary: T1)
  case Nil
  show ?case by simp
next
  case (Cons s want)
  show ?case
  proof (cases "(cid, s) \<in> set T1")
    case True
    then show ?thesis using Cons [of T1] by auto
  next
    case False
    then show ?thesis using Cons [of "T1 @ [(cid, s)]"] by auto
  qed
qed

lemma sync_tags_set:
  "set (sync_tags T cid W) =
     {t \<in> set T. fst t \<noteq> cid \<or> (snd t \<in> set W \<and> snd t \<noteq> 0)}
       \<union> (\<lambda>s. (cid, s)) ` {s \<in> set W. s \<noteq> 0}"
proof -
  let ?want = "sort (filter (\<lambda>s. s \<noteq> 0) W)"
  have w: "set ?want = {s \<in> set W. s \<noteq> 0}" by auto
  let ?T1 = "if ?want \<noteq> []
             then filter (\<lambda>t. \<not> (fst t = cid \<and> snd t \<notin> set ?want)) T
             else filter (\<lambda>t. fst t \<noteq> cid) T"
  have t1: "set ?T1 = {t \<in> set T. fst t \<noteq> cid \<or> (snd t \<in> set W \<and> snd t \<noteq> 0)}"
  proof (cases "?want = []")
    case True
    then have "set ?want = {}" by simp
    then have e: "{s \<in> set W. s \<noteq> 0} = {}" unfolding w .
    have "set ?T1 = {t \<in> set T. fst t \<noteq> cid}" using True by simp
    also have "\<dots> = {t \<in> set T. fst t \<noteq> cid \<or> (snd t \<in> set W \<and> snd t \<noteq> 0)}"
      using e by auto
    finally show ?thesis .
  next
    case False
    then have "set ?T1 = {t \<in> set T. \<not> (fst t = cid \<and> snd t \<notin> set ?want)}" by simp
    also have "\<dots> = {t \<in> set T. fst t \<noteq> cid \<or> (snd t \<in> set W \<and> snd t \<noteq> 0)}"
      unfolding w by auto
    finally show ?thesis .
  qed
  have s: "sync_tags T cid W =
          fold (\<lambda>sid T'. if (cid, sid) \<in> set T' then T' else T' @ [(cid, sid)]) ?want ?T1"
    unfolding sync_tags_def Let_def ..
  have "set (sync_tags T cid W) = set ?T1 \<union> (\<lambda>s. (cid, s)) ` set ?want"
    unfolding s by (rule fold_merge_set)
  also have "\<dots> = {t \<in> set T. fst t \<noteq> cid \<or> (snd t \<in> set W \<and> snd t \<noteq> 0)}
                     \<union> (\<lambda>s. (cid, s)) ` set ?want"
    by (simp only: t1)
  also have "\<dots> = {t \<in> set T. fst t \<noteq> cid \<or> (snd t \<in> set W \<and> snd t \<noteq> 0)}
                     \<union> (\<lambda>s. (cid, s)) ` {s \<in> set W. s \<noteq> 0}"
    by (simp only: w)
  finally show ?thesis .
qed

lemma sync_tags_same:
  "{s. (cid, s) \<in> set (sync_tags T cid W)} = {s \<in> set W. s \<noteq> 0}"
  unfolding sync_tags_set by auto

lemma sync_tags_other:
  "c \<noteq> cid \<Longrightarrow> {s. (c, s) \<in> set (sync_tags T cid W)} = {s. (c, s) \<in> set T}"
  unfolding sync_tags_set by auto

lemma want_tags_set:
  "set (want_tags env a b) =
     {s. s = env_tag_in env \<and> a > env_hib_in_days env}
       \<union> {s. s = env_tag_out env \<and> b > env_hib_out_days env}"
  by (auto simp: want_tags_def Let_def)

subsection \<open>One row\<close>

lemma row_customers:
  "rs_customers (recompute_row env st r) =
     map (\<lambda>x. if cu_CustomerID x = fst r
               then (if fst (snd r) = env_sid_disabled env
                       \<or> fst (snd r) = new_primary env (days_since (env_today env) (fst (snd (snd r))))
                                         (days_since (env_today env) (snd (snd (snd r))))
                     then x
                     else x\<lparr>cu_StatusID := new_primary env (days_since (env_today env) (fst (snd (snd r))))
                                         (days_since (env_today env) (snd (snd (snd r)))),
                            cu_StatusDate := Some (env_today env)\<rparr>)
               else x) (rs_customers st)"
proof -
  let ?np = "new_primary env (days_since (env_today env) (fst (snd (snd r))))
                                         (days_since (env_today env) (snd (snd (snd r))))"
  show ?thesis
  proof (cases "fst (snd r) = env_sid_disabled env \<or> fst (snd r) = ?np")
    case True
    then have "rs_customers (recompute_row env st r) = rs_customers st"
      by (auto simp: recompute_row_def split_def Let_def)
    moreover from True have "map (\<lambda>x. if cu_CustomerID x = fst r
               then (if fst (snd r) = env_sid_disabled env \<or> fst (snd r) = ?np then x
                     else x\<lparr>cu_StatusID := ?np, cu_StatusDate := Some (env_today env)\<rparr>)
               else x) (rs_customers st) = rs_customers st"
      by (intro map_idI) simp
    ultimately show ?thesis by simp
  next
    case False
    then show ?thesis
      by (simp add: recompute_row_def split_def Let_def)
  qed
qed

lemma row_tags:
  "rs_tags (recompute_row env st r) =
     (if fst (snd r) = env_sid_disabled env then rs_tags st
      else if set (map snd (filter (\<lambda>t. fst t = fst r) (rs_tags st)))
                \<noteq> set (want_tags env (days_since (env_today env) (fst (snd (snd r))))
                                       (days_since (env_today env) (snd (snd (snd r)))))
           then sync_tags (rs_tags st) (fst r)
                  (want_tags env (days_since (env_today env) (fst (snd (snd r))))
                                 (days_since (env_today env) (snd (snd (snd r)))))
           else rs_tags st)"
  by (simp add: recompute_row_def split_def Let_def)

lemma row_skipped:
  "rs_SkippedDisabled (recompute_row env st r) =
     rs_SkippedDisabled st + (if fst (snd r) = env_sid_disabled env then 1 else 0)"
  by (simp add: recompute_row_def split_def Let_def)

lemma row_tags_other:
  assumes "c \<noteq> fst r"
  shows "{s. (c, s) \<in> set (rs_tags (recompute_row env st r))} = {s. (c, s) \<in> set (rs_tags st)}"
  unfolding row_tags using sync_tags_other [OF assms] by simp

lemma row_tags_same:
  assumes nz: "env_tag_in env \<noteq> 0" "env_tag_out env \<noteq> 0"
  shows "{s. (fst r, s) \<in> set (rs_tags (recompute_row env st r))} =
     (if fst (snd r) = env_sid_disabled env then {s. (fst r, s) \<in> set (rs_tags st)}
      else set (want_tags env (days_since (env_today env) (fst (snd (snd r))))
                              (days_since (env_today env) (snd (snd (snd r))))))"
proof -
  let ?W = "want_tags env (days_since (env_today env) (fst (snd (snd r))))
                              (days_since (env_today env) (snd (snd (snd r))))"
  have w0: "{s \<in> set ?W. s \<noteq> 0} = set ?W"
    unfolding want_tags_set using nz by auto
  have b: "set (map snd (filter (\<lambda>t. fst t = fst r) (rs_tags st))) = {s. (fst r, s) \<in> set (rs_tags st)}"
    by force
  show ?thesis
  proof (cases "fst (snd r) = env_sid_disabled env")
    case True
    then show ?thesis unfolding row_tags by simp
  next
    case nd: False
    show ?thesis
    proof (cases "set (map snd (filter (\<lambda>t. fst t = fst r) (rs_tags st))) = set ?W")
      case True
      with nd have "rs_tags (recompute_row env st r) = rs_tags st" unfolding row_tags by simp
      with True nd show ?thesis unfolding b by simp
    next
      case False
      with nd have "rs_tags (recompute_row env st r) = sync_tags (rs_tags st) (fst r) ?W"
        unfolding row_tags by simp
      with nd show ?thesis by (simp only: sync_tags_same w0 if_False)
    qed
  qed
qed

subsection \<open>The loop\<close>

lemma find_fst_None: "k \<notin> set (map fst rows) \<Longrightarrow> find (\<lambda>r. fst r = k) rows = None"
  by (induction rows) auto

lemma loop_customers_gen:
  assumes step: "\<And>st r. rs_customers (recompute_row env st r)
                    = map (\<lambda>x. if cu_CustomerID x = fst r then T r x else x) (rs_customers st)"
      and keep: "\<And>r x. cu_CustomerID (T r x) = cu_CustomerID x"
      and d: "distinct (map fst rows)"
  shows "rs_customers (recompute_loop env st rows) =
           map (\<lambda>x. case find (\<lambda>r. fst r = cu_CustomerID x) rows of None \<Rightarrow> x | Some r \<Rightarrow> T r x)
             (rs_customers st)"
  using d
proof (induction rows arbitrary: st)
  case Nil
  show ?case by simp
next
  case (Cons r rows)
  from Cons.prems have nr: "fst r \<notin> set (map fst rows)" and dr: "distinct (map fst rows)"
    by simp_all
  have "rs_customers (recompute_loop env st (r # rows))
          = rs_customers (recompute_loop env (recompute_row env st r) rows)" by simp
  also have "\<dots> = map (\<lambda>x. case find (\<lambda>r. fst r = cu_CustomerID x) rows of None \<Rightarrow> x | Some r \<Rightarrow> T r x)
                     (rs_customers (recompute_row env st r))"
    by (rule Cons.IH [OF dr])
  also have "\<dots> = map (\<lambda>x. case find (\<lambda>r. fst r = cu_CustomerID x) rows of None \<Rightarrow> x | Some r \<Rightarrow> T r x)
                     (map (\<lambda>x. if cu_CustomerID x = fst r then T r x else x) (rs_customers st))"
    unfolding step ..
  also have "\<dots> = map (\<lambda>x. case find (\<lambda>r. fst r = cu_CustomerID x) (r # rows) of
                              None \<Rightarrow> x | Some r \<Rightarrow> T r x) (rs_customers st)"
    unfolding map_map
  proof (rule map_cong [OF refl])
    fix x
    show "((\<lambda>x. case find (\<lambda>r. fst r = cu_CustomerID x) rows of None \<Rightarrow> x | Some r \<Rightarrow> T r x)
             \<circ> (\<lambda>x. if cu_CustomerID x = fst r then T r x else x)) x
          = (case find (\<lambda>r. fst r = cu_CustomerID x) (r # rows) of None \<Rightarrow> x | Some r \<Rightarrow> T r x)"
    proof (cases "cu_CustomerID x = fst r")
      case True
      with nr have "find (\<lambda>r. fst r = cu_CustomerID x) rows = None"
        by (simp add: find_fst_None)
      with True show ?thesis by (simp add: keep)
    next
      case False
      then have "fst r \<noteq> cu_CustomerID x" by simp
      with False show ?thesis by simp
    qed
  qed
  finally show ?case .
qed

lemma loop_tags_gen:
  assumes same: "\<And>st r. {s. (fst r, s) \<in> set (rs_tags (recompute_row env st r))}
                    = (if D r then {s. (fst r, s) \<in> set (rs_tags st)} else W r)"
      and other: "\<And>st r c. c \<noteq> fst r \<Longrightarrow>
                    {s. (c, s) \<in> set (rs_tags (recompute_row env st r))} = {s. (c, s) \<in> set (rs_tags st)}"
      and d: "distinct (map fst rows)"
  shows "{s. (c, s) \<in> set (rs_tags (recompute_loop env st rows))} =
           (case find (\<lambda>r. fst r = c) rows of
              None \<Rightarrow> {s. (c, s) \<in> set (rs_tags st)}
            | Some r \<Rightarrow> if D r then {s. (c, s) \<in> set (rs_tags st)} else W r)"
  using d
proof (induction rows arbitrary: st)
  case Nil
  show ?case by simp
next
  case (Cons r rows)
  from Cons.prems have nr: "fst r \<notin> set (map fst rows)" and dr: "distinct (map fst rows)"
    by simp_all
  note IH = Cons.IH [OF dr, of "recompute_row env st r"]
  show ?case
  proof (cases "c = fst r")
    case True
    with nr have n: "find (\<lambda>r. fst r = c) rows = None" by (simp add: find_fst_None)
    have "{s. (c, s) \<in> set (rs_tags (recompute_loop env st (r # rows)))}
            = {s. (c, s) \<in> set (rs_tags (recompute_row env st r))}"
      using IH unfolding n by simp
    also have "\<dots> = (if D r then {s. (c, s) \<in> set (rs_tags st)} else W r)"
      unfolding True by (rule same)
    finally show ?thesis using True by simp
  next
    case False
    then have f: "find (\<lambda>r. fst r = c) (r # rows) = find (\<lambda>r. fst r = c) rows" by auto
    show ?thesis unfolding f using IH unfolding other [OF False] by simp
  qed
qed

lemma loop_skipped:
  "rs_SkippedDisabled (recompute_loop env st rows) =
     rs_SkippedDisabled st + length (filter (\<lambda>r. fst (snd r) = env_sid_disabled env) rows)"
  by (induction rows arbitrary: st) (simp_all add: row_skipped)


subsection \<open>The setup\<close>

lemma next_status_id_gt:
  assumes "s \<in> set S"
  shows "fst s < next_status_id S"
proof -
  from assms have ne: "map fst S \<noteq> []" and m: "fst s \<in> set (map fst S)" by auto
  from m have "fst s \<le> Max (set (map fst S))" by (intro Max_ge) simp_all
  with ne show ?thesis by (simp add: next_status_id_def sql_max_eq)
qed

lemma next_status_id_pos:
  assumes "status_table_ok S"
  shows "0 < next_status_id S"
proof (cases S)
  case Nil
  then show ?thesis by (simp add: next_status_id_def)
next
  case (Cons s S')
  with assms have "0 < fst s" by (simp add: status_table_ok_def)
  moreover from Cons have "fst s < next_status_id S" by (intro next_status_id_gt) simp
  ultimately show ?thesis by simp
qed

lemma get_status_id_ok:
  assumes ok: "status_table_ok S" and g: "get_status_id S n = (i, S')"
  shows "status_table_ok S' \<and> (i, n) \<in> set S' \<and> set S \<subseteq> set S'"
proof (cases "find (\<lambda>s. snd s = n) S")
  case None
  with g have i: "i = next_status_id S" and S': "S' = S @ [(next_status_id S, n)]"
    by (auto simp: get_status_id_def)
  have new: "next_status_id S \<notin> set (map fst S)"
  proof
    assume "next_status_id S \<in> set (map fst S)"
    then obtain s where "s \<in> set S" and "fst s = next_status_id S" by auto
    with next_status_id_gt [of s S] show False by simp
  qed
  from ok new next_status_id_pos [OF ok] have "status_table_ok S'"
    unfolding S' status_table_ok_def by simp
  then show ?thesis unfolding i S' by auto
next
  case (Some s)
  then have mem: "s \<in> set S" and n: "snd s = n" by (auto simp: find_Some_iff)
  from g Some have i: "i = fst s" and S': "S' = S" by (simp_all add: get_status_id_def)
  have "(fst s, snd s) = s" by simp
  with mem n have "(i, n) \<in> set S" unfolding i by metis
  with ok show ?thesis unfolding S' by simp
qed

lemma recompute_setup_thresholds:
  "env_today (fst (recompute_setup today db)) = today"
  "env_dead_days (fst (recompute_setup today db)) = get_cfg_int (sd_config db) ''DeadThresholdDays'' 90"
  "env_hib_in_days (fst (recompute_setup today db))
     = get_cfg_int (sd_config db) ''HibernatingSellInThresholdDays'' 30"
  "env_hib_out_days (fst (recompute_setup today db))
     = get_cfg_int (sd_config db) ''HibernatingSellOutThresholdDays'' 30"
  by (simp_all add: recompute_setup_def split_def Let_def)

lemma recompute_setup_ids:
  assumes ok: "status_table_ok (sd_statuses db)"
  shows "status_table_ok (snd (recompute_setup today db))
       \<and> (env_sid_active (fst (recompute_setup today db)), ''Active'') \<in> set (snd (recompute_setup today db))
       \<and> (env_sid_dead (fst (recompute_setup today db)), ''DEAD'') \<in> set (snd (recompute_setup today db))
       \<and> (env_sid_disabled (fst (recompute_setup today db)), ''Disabled'')
            \<in> set (snd (recompute_setup today db))
       \<and> (env_tag_in (fst (recompute_setup today db)), ''Hibernating-Sell-in'')
            \<in> set (snd (recompute_setup today db))
       \<and> (env_tag_out (fst (recompute_setup today db)), ''Hibernating-Sell-out'')
            \<in> set (snd (recompute_setup today db))"
proof -
  obtain a S1 where 1: "get_status_id (sd_statuses db) ''Active'' = (a, S1)" by (rule prod.exhaust)
  obtain d S2 where 2: "get_status_id S1 ''DEAD'' = (d, S2)" by (rule prod.exhaust)
  obtain x S3 where 3: "get_status_id S2 ''Disabled'' = (x, S3)" by (rule prod.exhaust)
  obtain ti S4 where 4: "get_status_id S3 ''Hibernating-Sell-in'' = (ti, S4)" by (rule prod.exhaust)
  obtain tou S5 where 5: "get_status_id S4 ''Hibernating-Sell-out'' = (tou, S5)" by (rule prod.exhaust)
  have e: "env_sid_active (fst (recompute_setup today db)) = a"
          "env_sid_dead (fst (recompute_setup today db)) = d"
          "env_sid_disabled (fst (recompute_setup today db)) = x"
          "env_tag_in (fst (recompute_setup today db)) = ti"
          "env_tag_out (fst (recompute_setup today db)) = tou"
          "snd (recompute_setup today db) = S5"
    by (simp_all add: recompute_setup_def Let_def 1 2 3 4 5)
  from get_status_id_ok [OF ok 1] have o1: "status_table_ok S1" and m1: "(a, ''Active'') \<in> set S1"
    by simp_all
  from get_status_id_ok [OF o1 2] have o2: "status_table_ok S2" and m2: "(d, ''DEAD'') \<in> set S2"
    and s2: "set S1 \<subseteq> set S2" by simp_all
  from get_status_id_ok [OF o2 3] have o3: "status_table_ok S3" and m3: "(x, ''Disabled'') \<in> set S3"
    and s3: "set S2 \<subseteq> set S3" by simp_all
  from get_status_id_ok [OF o3 4] have o4: "status_table_ok S4"
    and m4: "(ti, ''Hibernating-Sell-in'') \<in> set S4" and s4: "set S3 \<subseteq> set S4" by simp_all
  from get_status_id_ok [OF o4 5] have o5: "status_table_ok S5"
    and m5: "(tou, ''Hibernating-Sell-out'') \<in> set S5" and s5: "set S4 \<subseteq> set S5" by simp_all
  from m1 s2 s3 s4 s5 have a: "(a, ''Active'') \<in> set S5" by blast
  from m2 s3 s4 s5 have b: "(d, ''DEAD'') \<in> set S5" by blast
  from m3 s4 s5 have c: "(x, ''Disabled'') \<in> set S5" by blast
  from m4 s5 have d: "(ti, ''Hibernating-Sell-in'') \<in> set S5" by blast
  show ?thesis unfolding e by (rule conjI [OF o5 conjI [OF a conjI [OF b conjI [OF c conjI [OF d m5]]]]])
qed

lemma status_ids_neq:
  assumes "status_table_ok S" and "(i, a) \<in> set S" and "(j, b) \<in> set S" and "a \<noteq> b"
  shows "i \<noteq> j"
proof
  assume "i = j"
  with assms(2,3) have "(i, a) \<in> set S" and "(i, b) \<in> set S" by simp_all
  moreover from assms(1) have "distinct (map fst S)" by (simp add: status_table_ok_def)
  ultimately have "a = b" by (rule eq_key_imp_eq_value [rotated])
  with assms(4) show False by simp
qed

lemma status_ids_pos:
  assumes "status_table_ok S" and "(i, a) \<in> set S"
  shows "0 < i"
  using assms by (auto simp: status_table_ok_def list_all_iff)

lemma recompute_setup_distinct:
  assumes ok: "status_table_ok (sd_statuses db)"
  shows "distinct [env_sid_active (fst (recompute_setup today db)),
                   env_sid_dead (fst (recompute_setup today db)),
                   env_sid_disabled (fst (recompute_setup today db)),
                   env_tag_in (fst (recompute_setup today db)),
                   env_tag_out (fst (recompute_setup today db))]"
    and "env_tag_in (fst (recompute_setup today db)) \<noteq> 0"
    and "env_tag_out (fst (recompute_setup today db)) \<noteq> 0"
proof -
  let ?e = "fst (recompute_setup today db)"
  let ?S = "snd (recompute_setup today db)"
  from recompute_setup_ids [OF ok, of today]
  have o: "status_table_ok ?S"
    and a: "(env_sid_active ?e, ''Active'') \<in> set ?S"
    and b: "(env_sid_dead ?e, ''DEAD'') \<in> set ?S"
    and c: "(env_sid_disabled ?e, ''Disabled'') \<in> set ?S"
    and d: "(env_tag_in ?e, ''Hibernating-Sell-in'') \<in> set ?S"
    and e: "(env_tag_out ?e, ''Hibernating-Sell-out'') \<in> set ?S"
    by simp_all
  have ab: "env_sid_active ?e \<noteq> env_sid_dead ?e" by (rule status_ids_neq [OF o a b]) simp
  have ac: "env_sid_active ?e \<noteq> env_sid_disabled ?e" by (rule status_ids_neq [OF o a c]) simp
  have ad: "env_sid_active ?e \<noteq> env_tag_in ?e" by (rule status_ids_neq [OF o a d]) simp
  have ae: "env_sid_active ?e \<noteq> env_tag_out ?e" by (rule status_ids_neq [OF o a e]) simp
  have bc: "env_sid_dead ?e \<noteq> env_sid_disabled ?e" by (rule status_ids_neq [OF o b c]) simp
  have bd: "env_sid_dead ?e \<noteq> env_tag_in ?e" by (rule status_ids_neq [OF o b d]) simp
  have be: "env_sid_dead ?e \<noteq> env_tag_out ?e" by (rule status_ids_neq [OF o b e]) simp
  have cd: "env_sid_disabled ?e \<noteq> env_tag_in ?e" by (rule status_ids_neq [OF o c d]) simp
  have ce: "env_sid_disabled ?e \<noteq> env_tag_out ?e" by (rule status_ids_neq [OF o c e]) simp
  have de: "env_tag_in ?e \<noteq> env_tag_out ?e" by (rule status_ids_neq [OF o d e]) simp
  from ab ac ad ae bc bd be cd ce de
  show "distinct [env_sid_active ?e, env_sid_dead ?e, env_sid_disabled ?e, env_tag_in ?e, env_tag_out ?e]"
    by simp
  from status_ids_pos [OF o d] show "env_tag_in ?e \<noteq> 0" by simp
  from status_ids_pos [OF o e] show "env_tag_out ?e \<noteq> 0" by simp
qed

subsection \<open>The recompute\<close>

lemma find_keyed:
  assumes "distinct (map k xs)" and "x \<in> set xs" and "\<And>y. fst (f y) = k y"
  shows "find (\<lambda>r. fst r = k x) (map f xs) = Some (f x)"
  using assms(1,2)
proof (induction xs)
  case Nil
  then show ?case by simp
next
  case (Cons y ys)
  show ?case
  proof (cases "x = y")
    case True
    then show ?thesis by (simp add: assms(3))
  next
    case False
    with Cons.prems have x: "x \<in> set ys" and d: "distinct (map k ys)" and ny: "k y \<notin> set (map k ys)"
      by simp_all
    from x ny have "k y \<noteq> k x" by auto
    with Cons.IH [OF d x] show ?thesis by (simp add: assms(3))
  qed
qed

lemma recompute_unfold:
  "sd_customers (snd (recompute_customer_statuses today db)) =
     rs_customers (recompute_loop (fst (recompute_setup today db))
        \<lparr>rs_customers = sd_customers db, rs_tags = sd_tags db, rs_PrimaryUpdated = 0,
          rs_TagsUpdated = 0, rs_SkippedDisabled = 0\<rparr> (status_rows (sd_customers db) (sd_ledger db)))"
  "sd_tags (snd (recompute_customer_statuses today db)) =
     rs_tags (recompute_loop (fst (recompute_setup today db))
        \<lparr>rs_customers = sd_customers db, rs_tags = sd_tags db, rs_PrimaryUpdated = 0,
          rs_TagsUpdated = 0, rs_SkippedDisabled = 0\<rparr> (status_rows (sd_customers db) (sd_ledger db)))"
  "res_SkippedDisabled (fst (recompute_customer_statuses today db)) =
     rs_SkippedDisabled (recompute_loop (fst (recompute_setup today db))
        \<lparr>rs_customers = sd_customers db, rs_tags = sd_tags db, rs_PrimaryUpdated = 0,
          rs_TagsUpdated = 0, rs_SkippedDisabled = 0\<rparr> (status_rows (sd_customers db) (sd_ledger db)))"
  "sd_statuses (snd (recompute_customer_statuses today db)) = snd (recompute_setup today db)"
  "res_Dead (fst (recompute_customer_statuses today db)) = env_dead_days (fst (recompute_setup today db))"
  "res_HibernatingSellIn (fst (recompute_customer_statuses today db))
     = env_hib_in_days (fst (recompute_setup today db))"
  "res_HibernatingSellOut (fst (recompute_customer_statuses today db))
     = env_hib_out_days (fst (recompute_setup today db))"
  by (simp_all add: recompute_customer_statuses_def split_def Let_def)

lemma days_since_last_date:
  "days_since today (last_doc_date mt L cid) =
     (if \<forall>e \<in> set L. \<not> (MovementType e = mt \<and> CustomerID e = cid) then 10 ^ 9
      else today - Max (DocDate ` {e \<in> set L. MovementType e = mt \<and> CustomerID e = cid}))"
proof (cases "\<forall>e \<in> set L. \<not> (MovementType e = mt \<and> CustomerID e = cid)")
  case True
  then have "filter (\<lambda>e. MovementType e = mt \<and> CustomerID e = cid) L = []"
    by (simp add: filter_empty_conv)
  with True show ?thesis by (simp add: days_since_def last_doc_date_def)
next
  case False
  then have ne: "filter (\<lambda>e. MovementType e = mt \<and> CustomerID e = cid) L \<noteq> []"
    by (simp add: filter_empty_conv)
  have "last_doc_date mt L cid = Some (Max (DocDate ` {e \<in> set L. MovementType e = mt \<and> CustomerID e = cid}))"
    unfolding last_doc_date_def sql_max_eq using ne by simp
  then have "days_since today (last_doc_date mt L cid)
               = today - Max (DocDate ` {e \<in> set L. MovementType e = mt \<and> CustomerID e = cid})"
    by (simp add: days_since_def)
  then show ?thesis by (simp only: False if_False)
qed


text \<open>
  Claim C10.  On tables with their primary keys (\<open>StatusID\<close> generated from 1 on,
  \<open>CustomerID\<close> unique), the recompute leaves a customer in the Disabled status as it
  is, tags included, and counts it in \<open>SkippedDisabled\<close>; it gives every other customer the
  primary status DEAD when both the days since the last sell-in and the days since the
  last sell-out exceed the dead threshold and ACTIVE otherwise (the row is rewritten, with
  today's date, only when the status changes); the tags of such a customer after the run
  are the sell-in tag exactly when the days since the last sell-in exceed the sell-in
  threshold, and the sell-out tag exactly when the days since the last sell-out exceed
  the sell-out threshold; the five status ids are pairwise distinct; the thresholds are
  the configured ones, 90, 30 and 30 by default; and the days since a movement type that
  never occurred are \<open>10 ^ 9\<close>.
\<close>

theorem recompute_statuses_spec:
  fixes today :: date and db :: status_db
  defines "env \<equiv> fst (recompute_setup today db)"
    and "res \<equiv> fst (recompute_customer_statuses today db)"
    and "db' \<equiv> snd (recompute_customer_statuses today db)"
    and "ds_in \<equiv> \<lambda>c. days_since today (last_doc_date ''SELLIN'' (sd_ledger db) (cu_CustomerID c))"
    and "ds_out \<equiv> \<lambda>c. days_since today (last_doc_date ''SELLOUT'' (sd_ledger db) (cu_CustomerID c))"
  assumes ok: "status_table_ok (sd_statuses db)"
    and dc: "distinct (map cu_CustomerID (sd_customers db))"
  shows
    "sd_customers db' =
       map (\<lambda>c. if cu_StatusID c = env_sid_disabled env then c
                 else if ds_in c > env_dead_days env \<and> ds_out c > env_dead_days env
                 then (if cu_StatusID c = env_sid_dead env then c
                       else c\<lparr>cu_StatusID := env_sid_dead env, cu_StatusDate := Some today\<rparr>)
                 else (if cu_StatusID c = env_sid_active env then c
                       else c\<lparr>cu_StatusID := env_sid_active env, cu_StatusDate := Some today\<rparr>))
         (sd_customers db)
     \<and> (\<forall>c \<in> set (sd_customers db).
           {s. (cu_CustomerID c, s) \<in> set (sd_tags db')} =
             (if cu_StatusID c = env_sid_disabled env
              then {s. (cu_CustomerID c, s) \<in> set (sd_tags db)}
              else {s. s = env_tag_in env \<and> ds_in c > env_hib_in_days env}
                   \<union> {s. s = env_tag_out env \<and> ds_out c > env_hib_out_days env}))
     \<and> res_SkippedDisabled res
         = length (filter (\<lambda>c. cu_StatusID c = env_sid_disabled env) (sd_customers db))
     \<and> distinct [env_sid_active env, env_sid_dead env, env_sid_disabled env, env_tag_in env,
                  env_tag_out env]
     \<and> set [(env_sid_active env, ''Active''), (env_sid_dead env, ''DEAD''),
             (env_sid_disabled env, ''Disabled''), (env_tag_in env, ''Hibernating-Sell-in''),
             (env_tag_out env, ''Hibernating-Sell-out'')] \<subseteq> set (sd_statuses db')
     \<and> env_dead_days env = get_cfg_int (sd_config db) ''DeadThresholdDays'' 90
     \<and> env_hib_in_days env = get_cfg_int (sd_config db) ''HibernatingSellInThresholdDays'' 30
     \<and> env_hib_out_days env = get_cfg_int (sd_config db) ''HibernatingSellOutThresholdDays'' 30
     \<and> (\<forall>mt cid. days_since today (last_doc_date mt (sd_ledger db) cid) =
           (if \<forall>e \<in> set (sd_ledger db). \<not> (MovementType e = mt \<and> CustomerID e = cid) then 10 ^ 9
            else today - Max (DocDate ` {e \<in> set (sd_ledger db).
                                          MovementType e = mt \<and> CustomerID e = cid})))"
proof -
  let ?C = "sd_customers db"
  let ?L = "sd_ledger db"
  let ?f = "\<lambda>c. (cu_CustomerID c, cu_StatusID c, last_doc_date ''SELLIN'' ?L (cu_CustomerID c),
                 last_doc_date ''SELLOUT'' ?L (cu_CustomerID c))"
  let ?st0 = "\<lparr>rs_customers = sd_customers db, rs_tags = sd_tags db, rs_PrimaryUpdated = 0,
               rs_TagsUpdated = 0, rs_SkippedDisabled = 0\<rparr>"
  let ?np = "\<lambda>r. new_primary env (days_since (env_today env) (fst (snd (snd r))))
                                 (days_since (env_today env) (snd (snd (snd r))))"
  let ?T = "\<lambda>r x. if fst (snd r) = env_sid_disabled env \<or> fst (snd r) = ?np r then x
                  else x\<lparr>cu_StatusID := ?np r, cu_StatusDate := Some (env_today env)\<rparr>"
  let ?W = "\<lambda>r. set (want_tags env (days_since (env_today env) (fst (snd (snd r))))
                                   (days_since (env_today env) (snd (snd (snd r)))))"
  have today: "env_today env = today" unfolding env_def by (rule recompute_setup_thresholds)
  have rows: "status_rows ?C ?L = map ?f ?C" by (rule status_rows_eq)
  have drows: "distinct (map fst (map ?f ?C))" using dc by (simp add: o_def)
  have found: "find (\<lambda>r. fst r = cu_CustomerID x) (map ?f ?C) = Some (?f x)" if "x \<in> set ?C" for x
    by (rule find_keyed [OF dc that]) simp
  note ids = recompute_setup_distinct [OF ok, of today, folded env_def]
  have keep: "\<And>r x. cu_CustomerID (?T r x) = cu_CustomerID x" by simp
  note lc = loop_customers_gen [where env = env and T = ?T and st = ?st0 and rows = "map ?f ?C",
      OF row_customers keep drows]
  have "sd_customers db' = rs_customers (recompute_loop env ?st0 (map ?f ?C))"
    unfolding db'_def env_def recompute_unfold rows ..
  also have "\<dots> = map (\<lambda>x. case find (\<lambda>r. fst r = cu_CustomerID x) (map ?f ?C) of
                              None \<Rightarrow> x | Some r \<Rightarrow> ?T r x) ?C"
    using lc by simp
  also have "\<dots> = map (\<lambda>c. if cu_StatusID c = env_sid_disabled env then c
                 else if ds_in c > env_dead_days env \<and> ds_out c > env_dead_days env
                 then (if cu_StatusID c = env_sid_dead env then c
                       else c\<lparr>cu_StatusID := env_sid_dead env, cu_StatusDate := Some today\<rparr>)
                 else (if cu_StatusID c = env_sid_active env then c
                       else c\<lparr>cu_StatusID := env_sid_active env, cu_StatusDate := Some today\<rparr>)) ?C"
  proof (rule map_cong [OF refl])
    fix x assume x: "x \<in> set ?C"
    show "(case find (\<lambda>r. fst r = cu_CustomerID x) (map ?f ?C) of None \<Rightarrow> x | Some r \<Rightarrow> ?T r x)
        = (if cu_StatusID x = env_sid_disabled env then x
                 else if ds_in x > env_dead_days env \<and> ds_out x > env_dead_days env
                 then (if cu_StatusID x = env_sid_dead env then x
                       else x\<lparr>cu_StatusID := env_sid_dead env, cu_StatusDate := Some today\<rparr>)
                 else (if cu_StatusID x = env_sid_active env then x
                       else x\<lparr>cu_StatusID := env_sid_active env, cu_StatusDate := Some today\<rparr>))"
      unfolding found [OF x] by (simp add: new_primary_def today ds_in_def ds_out_def)
  qed
  finally have 1: "sd_customers db' =
       map (\<lambda>c. if cu_StatusID c = env_sid_disabled env then c
                 else if ds_in c > env_dead_days env \<and> ds_out c > env_dead_days env
                 then (if cu_StatusID c = env_sid_dead env then c
                       else c\<lparr>cu_StatusID := env_sid_dead env, cu_StatusDate := Some today\<rparr>)
                 else (if cu_StatusID c = env_sid_active env then c
                       else c\<lparr>cu_StatusID := env_sid_active env, cu_StatusDate := Some today\<rparr>)) ?C" .
  note lt = loop_tags_gen [where env = env and D = "\<lambda>r. fst (snd r) = env_sid_disabled env"
      and W = ?W and st = ?st0 and rows = "map ?f ?C",
      OF row_tags_same [OF ids(2) ids(3)] row_tags_other drows]
  have 2: "\<forall>c \<in> set ?C.
           {s. (cu_CustomerID c, s) \<in> set (sd_tags db')} =
             (if cu_StatusID c = env_sid_disabled env
              then {s. (cu_CustomerID c, s) \<in> set (sd_tags db)}
              else {s. s = env_tag_in env \<and> ds_in c > env_hib_in_days env}
                   \<union> {s. s = env_tag_out env \<and> ds_out c > env_hib_out_days env})"
  proof
    fix c assume c: "c \<in> set ?C"
    have t: "sd_tags db' = rs_tags (recompute_loop env ?st0 (map ?f ?C))"
      unfolding db'_def env_def recompute_unfold rows ..
    show "{s. (cu_CustomerID c, s) \<in> set (sd_tags db')} =
             (if cu_StatusID c = env_sid_disabled env
              then {s. (cu_CustomerID c, s) \<in> set (sd_tags db)}
              else {s. s = env_tag_in env \<and> ds_in c > env_hib_in_days env}
                   \<union> {s. s = env_tag_out env \<and> ds_out c > env_hib_out_days env})"
      using lt [of "cu_CustomerID c", unfolded found [OF c] option.case]
      unfolding t
      by (simp add: want_tags_set today ds_in_def ds_out_def)
  qed
  have "res_SkippedDisabled res
          = length (filter (\<lambda>r. fst (snd r) = env_sid_disabled env) (map ?f ?C))"
    unfolding res_def env_def recompute_unfold rows loop_skipped by simp
  also have "\<dots> = length (filter (\<lambda>c. cu_StatusID c = env_sid_disabled env) ?C)"
    by (simp add: filter_map o_def)
  finally have 3: "res_SkippedDisabled res
         = length (filter (\<lambda>c. cu_StatusID c = env_sid_disabled env) ?C)" .
  note 4 = ids(1)
  have 5: "set [(env_sid_active env, ''Active''), (env_sid_dead env, ''DEAD''),
             (env_sid_disabled env, ''Disabled''), (env_tag_in env, ''Hibernating-Sell-in''),
             (env_tag_out env, ''Hibernating-Sell-out'')] \<subseteq> set (sd_statuses db')"
    using recompute_setup_ids [OF ok, of today]
    unfolding db'_def env_def recompute_unfold by simp
  have 6: "env_dead_days env = get_cfg_int (sd_config db) ''DeadThresholdDays'' 90"
    unfolding env_def by (rule recompute_setup_thresholds)
  have 7: "env_hib_in_days env = get_cfg_int (sd_config db) ''HibernatingSellInThresholdDays'' 30"
    unfolding env_def by (rule recompute_setup_thresholds)
  have 8: "env_hib_out_days env = get_cfg_int (sd_config db) ''HibernatingSellOutThresholdDays'' 30"
    unfolding env_def by (rule recompute_setup_thresholds)
  have 9: "\<forall>mt cid. days_since today (last_doc_date mt (sd_ledger db) cid) =
           (if \<forall>e \<in> set (sd_ledger db). \<not> (MovementType e = mt \<and> CustomerID e = cid) then 10 ^ 9
            else today - Max (DocDate ` {e \<in> set (sd_ledger db).
                                          MovementType e = mt \<and> CustomerID e = cid}))"
    using days_since_last_date by blast
  show ?thesis
    by (rule conjI [OF 1 conjI [OF 2 conjI [OF 3 conjI [OF 4 conjI [OF 5 conjI [OF 6 conjI [OF 7
        conjI [OF 8 9]]]]]]]])
qed


text \<open>The scenario, on day 200 with the thresholds 90, 30 and 30: customer 1, whose last
  sell-in was 40 days ago and whose last sell-out was 100 days ago, stays ACTIVE and holds
  both hibernating tags; customer 2, disabled, is skipped and counted; customer 3, with
  no movement at all, becomes DEAD.\<close>

lemma scenario_env:
  "fst (recompute_setup 200 status_scenario) =
     \<lparr>env_today = 200, env_dead_days = 90, env_hib_in_days = 30, env_hib_out_days = 30,
      env_sid_active = 1, env_sid_dead = 2, env_sid_disabled = 3, env_tag_in = 4,
      env_tag_out = 5\<rparr>"
  by (simp add: recompute_setup_def status_scenario_def get_cfg_int_def get_status_id_def Let_def)

theorem recompute_statuses_spec_witness:
  "status_table_ok (sd_statuses status_scenario)
   \<and> distinct (map cu_CustomerID (sd_customers status_scenario))
   \<and> days_since 200 (last_doc_date ''SELLIN'' (sd_ledger status_scenario) 1) = 40
   \<and> days_since 200 (last_doc_date ''SELLOUT'' (sd_ledger status_scenario) 1) = 100
   \<and> sd_customers (snd (recompute_customer_statuses 200 status_scenario)) =
       [\<lparr>cu_CustomerID = 1, cu_StatusID = 1, cu_StatusDate = None\<rparr>,
        \<lparr>cu_CustomerID = 2, cu_StatusID = 3, cu_StatusDate = None\<rparr>,
        \<lparr>cu_CustomerID = 3, cu_StatusID = 2, cu_StatusDate = Some 200\<rparr>]
   \<and> {s. (1, s) \<in> set (sd_tags (snd (recompute_customer_statuses 200 status_scenario)))} = {4, 5}
   \<and> res_SkippedDisabled (fst (recompute_customer_statuses 200 status_scenario)) = 1"
proof -
  have 1: "status_table_ok (sd_statuses status_scenario)"
    by (simp add: status_scenario_def status_table_ok_def)
  have 2: "distinct (map cu_CustomerID (sd_customers status_scenario))"
    by (simp add: status_scenario_def)
  note th = recompute_statuses_spec [where db = status_scenario and today = 200, OF 1 2,
      unfolded scenario_env]
  have 3: "days_since 200 (last_doc_date ''SELLIN'' (sd_ledger status_scenario) 1) = 40"
    by (simp add: status_scenario_def last_doc_date_def mk_movement_def days_since_def)
  have 4: "days_since 200 (last_doc_date ''SELLOUT'' (sd_ledger status_scenario) 1) = 100"
    by (simp add: status_scenario_def last_doc_date_def mk_movement_def days_since_def)
  have 5: "sd_customers (snd (recompute_customer_statuses 200 status_scenario)) =
       [\<lparr>cu_CustomerID = 1, cu_StatusID = 1, cu_StatusDate = None\<rparr>,
        \<lparr>cu_CustomerID = 2, cu_StatusID = 3, cu_StatusDate = None\<rparr>,
        \<lparr>cu_CustomerID = 3, cu_StatusID = 2, cu_StatusDate = Some 200\<rparr>]"
    unfolding th [THEN conjunct1]
    by (simp add: status_scenario_def last_doc_date_def mk_movement_def days_since_def)
  have m: "\<lparr>cu_CustomerID = 1, cu_StatusID = 1, cu_StatusDate = None\<rparr>
             \<in> set (sd_customers status_scenario)"
    by (simp add: status_scenario_def)
  have 6: "{s. (1, s) \<in> set (sd_tags (snd (recompute_customer_statuses 200 status_scenario)))} = {4, 5}"
    using bspec [OF th [THEN conjunct2, THEN conjunct1] m]
    by (auto simp: status_scenario_def last_doc_date_def mk_movement_def days_since_def)
  have 7: "res_SkippedDisabled (fst (recompute_customer_statuses 200 status_scenario)) = 1"
    unfolding th [THEN conjunct2, THEN conjunct2, THEN conjunct1]
    by (simp add: status_scenario_def)
  show ?thesis
    by (rule conjI [OF 1 conjI [OF 2 conjI [OF 3 conjI [OF 4 conjI [OF 5 conjI [OF 6 7]]]]]])
qed

end
